theory Spec2Isabelle
  imports Complex_Main "HOL-Library.Multiset" "HOL-Library.Log_Nat"
begin

section \<open>Values of the scorer\<close>

text \<open>
  A JavaScript number is an IEEE 754 double: a finite value, \<open>Infinity\<close>, \<open>-Infinity\<close> or
  \<open>NaN\<close>. A finite double is given by the rational number it stands for; the two zeros are
  one value here, since \<open>===\<close>, \<open>JSON.stringify\<close> and every operation used by the scorer treat
  them alike. The results of the arithmetic are doubles by construction: every operation
  rounds the exact result with \<open>round_double\<close>.
\<close>

datatype jsnum = Fin rat | Infinity | NegInfinity | NaN

text \<open>The binary exponent of a rational \<open>x \<noteq> 0\<close>: the \<open>e\<close> with \<open>2^e \<le> |x| < 2^(e+1)\<close>.\<close>

definition exponent :: "rat \<Rightarrow> int" where
  "exponent x =
     (let a = \<bar>x\<bar> in
      if 1 \<le> a then bitlen \<lfloor>a\<rfloor> - 1 else - bitlen (\<lceil>1 / a\<rceil> - 1))"

text \<open>Rounding to the nearest integer, a tie going to the even one.\<close>

definition round_even :: "rat \<Rightarrow> int" where
  "round_even x =
     (let f = \<lfloor>x\<rfloor>; d = x - of_int f in
      if d < 1 / 2 then f else if 1 / 2 < d then f + 1 else if even f then f else f + 1)"

text \<open>
  Rounding to the nearest double, ties to even: doubles with exponent \<open>e\<close> are the multiples
  of \<open>2^(e-52)\<close>, the exponent is at least -1022 (below are the subnormal numbers), and a
  result of magnitude \<open>2^1024\<close> or more overflows.
\<close>

definition round_double :: "rat \<Rightarrow> jsnum" where
  "round_double x =
     (if x = 0 then Fin 0
      else (let e = max (exponent x) (- 1022);
                q = 2 powi (e - 52);
                r = of_int (round_even (x / q)) * q
            in if 2 powi 1024 \<le> r then Infinity
               else if r \<le> - (2 powi 1024) then NegInfinity
               else Fin r))"

text \<open>The operators \<open>+\<close>, \<open>*\<close>, \<open>/\<close> and \<open><\<close> on numbers.\<close>

fun js_add :: "jsnum \<Rightarrow> jsnum \<Rightarrow> jsnum" where
  "js_add (Fin a) (Fin b) = round_double (a + b)"
| "js_add NaN _ = NaN"
| "js_add _ NaN = NaN"
| "js_add Infinity NegInfinity = NaN"
| "js_add NegInfinity Infinity = NaN"
| "js_add Infinity _ = Infinity"
| "js_add _ Infinity = Infinity"
| "js_add NegInfinity _ = NegInfinity"
| "js_add _ NegInfinity = NegInfinity"

definition js_sign :: "jsnum \<Rightarrow> int" where
  "js_sign a =
     (case a of
        Fin x \<Rightarrow> (if x < 0 then - 1 else if x = 0 then 0 else 1)
      | Infinity \<Rightarrow> 1 | NegInfinity \<Rightarrow> - 1 | NaN \<Rightarrow> 0)"

fun js_mul :: "jsnum \<Rightarrow> jsnum \<Rightarrow> jsnum" where
  "js_mul (Fin a) (Fin b) = round_double (a * b)"
| "js_mul NaN _ = NaN"
| "js_mul _ NaN = NaN"
| "js_mul a b =
     (if js_sign a * js_sign b = 0 then NaN
      else if js_sign a * js_sign b < 0 then NegInfinity else Infinity)"

text \<open>
  Division; a zero divisor is \<open>+0\<close> here, the only zero that the counts of the statistics
  can be.
\<close>

fun js_div :: "jsnum \<Rightarrow> jsnum \<Rightarrow> jsnum" where
  "js_div NaN _ = NaN"
| "js_div _ NaN = NaN"
| "js_div (Fin a) (Fin b) =
     (if b = 0 then (if a = 0 then NaN else if a < 0 then NegInfinity else Infinity)
      else round_double (a / b))"
| "js_div (Fin a) _ = Fin 0"
| "js_div a (Fin b) =
     (if (b < 0) = (a = Infinity) then NegInfinity else Infinity)"
| "js_div _ _ = NaN"

fun js_lt :: "jsnum \<Rightarrow> jsnum \<Rightarrow> bool" where
  "js_lt NaN _ = False"
| "js_lt _ NaN = False"
| "js_lt (Fin a) (Fin b) = (a < b)"
| "js_lt _ NegInfinity = False"
| "js_lt NegInfinity _ = True"
| "js_lt Infinity _ = False"
| "js_lt _ Infinity = True"

text \<open>
  A score handed to the game is a number or \<open>null\<close> (the code does not check it further). A
  cell of a score row is such a value, or a hole: an array slot that was never written, which
  an assignment beyond the end of a JavaScript array leaves behind.
\<close>

type_synonym score = "jsnum option"

datatype cell = Hole | Null | Num jsnum

fun of_score :: "score \<Rightarrow> cell" where
  "of_score None = Null"
| "of_score (Some n) = Num n"

text \<open>
  Every \<open>throw new Error(msg)\<close> of the source is \<open>Error msg\<close>; \<open>TypeError\<close> is what the
  runtime raises when a property of \<open>undefined\<close> is read or written.
\<close>

datatype error = Error string | TypeError

section \<open>game.js: the Game class\<close>

record game =
  players :: "string list"
  scores :: "cell list list"
  currentRound :: int

definition maxRounds :: int where
  "maxRounds = 11"

definition roundCards :: "int list" where
  "roundCards = [3, 4, 5, 6, 7, 8, 9, 10, 11, 12, 13]"

text \<open>The constructor.\<close>

definition new_game :: game where
  "new_game = \<lparr>players = [], scores = [], currentRound = 1\<rparr>"

text \<open>
  \<open>row[i] = v\<close> on a JavaScript array: inside the array the slot is replaced; beyond its
  end the array grows, the slots in between being holes. A negative \<open>i\<close> names a property
  that is no array element, so the elements stay as they are.
\<close>

definition js_set :: "cell list \<Rightarrow> int \<Rightarrow> cell \<Rightarrow> cell list" where
  "js_set row i v =
     (if i < 0 then row
      else if nat i < length row then row[nat i := v]
      else row @ replicate (nat i - length row) Hole @ [v])"

text \<open>\<open>xs[i]\<close> read: \<open>undefined\<close> (here \<open>None\<close>) outside the array.\<close>

definition js_nth :: "'a list \<Rightarrow> int \<Rightarrow> 'a option" where
  "js_nth xs i = (if 0 \<le> i \<and> nat i < length xs then Some (xs ! nat i) else None)"

text \<open>
  Every operation takes the game and returns its outcome together with the game it leaves
  behind, so that what an exception leaves behind is part of the model.
\<close>

definition startNewGame :: "game \<Rightarrow> string list \<Rightarrow> (error + unit) \<times> game" where
  "startNewGame g playerNames =
     (if length playerNames < 2 then (Inl (Error ''At least 2 players required''), g)
      else (Inr (),
            g\<lparr>players := playerNames,
              scores := map (\<lambda>_. replicate (nat maxRounds) Null) playerNames,
              currentRound := 1\<rparr>))"

text \<open>
  \<open>String.prototype.trim\<close>, on strings of 8-bit code units: tab, line feed, vertical tab,
  form feed, carriage return, space and no-break space are the white space in that range.
\<close>

definition is_space :: "char \<Rightarrow> bool" where
  "is_space c = (c \<in> set [CHR 0x09, CHR 0x0A, CHR 0x0B, CHR 0x0C, CHR 0x0D, CHR 0x20, CHR 0xA0])"

definition trim :: "string \<Rightarrow> string" where
  "trim s = rev (dropWhile is_space (rev (dropWhile is_space s)))"

definition addPlayer :: "game \<Rightarrow> string \<Rightarrow> (error + bool) \<times> game" where
  "addPlayer g name =
     (let trimmedName = trim name in
      if trimmedName = [] then (Inl (Error ''Player name cannot be empty''), g)
      else if trimmedName \<in> set (players g) then (Inl (Error ''Player already exists''), g)
      else (Inr True, g\<lparr>players := players g @ [trimmedName]\<rparr>))"

definition removePlayer :: "game \<Rightarrow> int \<Rightarrow> game" where
  "removePlayer g index =
     (if index \<ge> 0 \<and> index < int (length (players g))
      then g\<lparr>players := take (nat index) (players g) @ drop (Suc (nat index)) (players g)\<rparr>
      else g)"

definition isGameComplete :: "game \<Rightarrow> bool" where
  "isGameComplete g = (currentRound g > maxRounds)"

text \<open>
  The \<open>forEach\<close> of \<open>submitRound\<close>, from index \<open>i\<close> on: \<open>this.scores[i][col] = score\<close>.
  Where \<open>this.scores[i]\<close> is \<open>undefined\<close> the assignment raises and the loop stops; the
  rows written before stay written. The flag tells whether the loop ran to its end.
\<close>

fun store_scores :: "cell list list \<Rightarrow> int \<Rightarrow> score list \<Rightarrow> nat \<Rightarrow> bool \<times> cell list list" where
  "store_scores sc col [] i = (True, sc)"
| "store_scores sc col (v # vs) i =
     (if i < length sc
      then store_scores (sc[i := js_set (sc ! i) col (of_score v)]) col vs (Suc i)
      else (False, sc))"

definition submitRound :: "game \<Rightarrow> score list \<Rightarrow> (error + bool) \<times> game" where
  "submitRound g roundScores =
     (if currentRound g > maxRounds then (Inl (Error ''Game is already complete''), g)
      else if length roundScores \<noteq> length (players g)
      then (Inl (Error ''Score count must match player count''), g)
      else (case store_scores (scores g) (currentRound g - 1) roundScores 0 of
              (False, sc) \<Rightarrow> (Inl TypeError, g\<lparr>scores := sc\<rparr>)
            | (True, sc) \<Rightarrow>
                (let g' = g\<lparr>scores := sc, currentRound := currentRound g + 1\<rparr>
                 in (Inr (isGameComplete g'), g'))))"

text \<open>
  The \<open>forEach\<close> of \<open>undoLastRound\<close> over the players, one step per remaining player:
  \<open>this.scores[i][col] = null\<close>.
\<close>

fun clear_scores :: "cell list list \<Rightarrow> int \<Rightarrow> nat \<Rightarrow> nat \<Rightarrow> bool \<times> cell list list" where
  "clear_scores sc col 0 i = (True, sc)"
| "clear_scores sc col (Suc n) i =
     (if i < length sc
      then clear_scores (sc[i := js_set (sc ! i) col Null]) col n (Suc i)
      else (False, sc))"

definition undoLastRound :: "game \<Rightarrow> (error + unit) \<times> game" where
  "undoLastRound g =
     (if currentRound g = 1 then (Inl (Error ''No rounds to undo''), g)
      else (let g1 = g\<lparr>currentRound := currentRound g - 1\<rparr> in
            case clear_scores (scores g1) (currentRound g1 - 1) (length (players g1)) 0 of
              (False, sc) \<Rightarrow> (Inl TypeError, g1\<lparr>scores := sc\<rparr>)
            | (True, sc) \<Rightarrow> (Inr (), g1\<lparr>scores := sc\<rparr>)))"

text \<open>
  \<open>row.reduce((sum, score) => sum + (score !== null ? score : 0), 0)\<close>; \<open>reduce\<close> does
  not visit holes.
\<close>

definition row_total :: "cell list \<Rightarrow> jsnum" where
  "row_total row =
     foldl (\<lambda>sum c. case c of Hole \<Rightarrow> sum | Null \<Rightarrow> js_add sum (Fin 0) | Num n \<Rightarrow> js_add sum n)
       (Fin 0) row"

definition getPlayerTotal :: "game \<Rightarrow> nat \<Rightarrow> error + jsnum" where
  "getPlayerTotal g playerIndex =
     (if playerIndex < length (scores g) then Inr (row_total (scores g ! playerIndex))
      else Inl TypeError)"

text \<open>\<open>map\<close> with a callback that may raise: the first exception ends it.\<close>

fun map_throw :: "('a \<Rightarrow> error + 'b) \<Rightarrow> 'a list \<Rightarrow> error + 'b list" where
  "map_throw f [] = Inr []"
| "map_throw f (x # xs) =
     (case f x of
        Inl e \<Rightarrow> Inl e
      | Inr y \<Rightarrow> (case map_throw f xs of Inl e \<Rightarrow> Inl e | Inr ys \<Rightarrow> Inr (y # ys)))"

definition getAllTotals :: "game \<Rightarrow> error + jsnum list" where
  "getAllTotals g = map_throw (getPlayerTotal g) [0..<length (players g)]"

text \<open>
  \<open>Math.min\<close> and \<open>Math.max\<close> of a list of arguments: \<open>NaN\<close> as soon as one argument is
  \<open>NaN\<close>, and \<open>Infinity\<close> and \<open>-Infinity\<close> when there is no argument.
\<close>

definition js_min2 :: "jsnum \<Rightarrow> jsnum \<Rightarrow> jsnum" where
  "js_min2 a b = (if a = NaN \<or> b = NaN then NaN else if js_lt b a then b else a)"

definition js_max2 :: "jsnum \<Rightarrow> jsnum \<Rightarrow> jsnum" where
  "js_max2 a b = (if a = NaN \<or> b = NaN then NaN else if js_lt a b then b else a)"

definition Math_min :: "jsnum list \<Rightarrow> jsnum" where
  "Math_min ts = fold (\<lambda>t m. js_min2 m t) ts Infinity"

definition Math_max :: "jsnum list \<Rightarrow> jsnum" where
  "Math_max ts = fold (\<lambda>t m. js_max2 m t) ts NegInfinity"

text \<open>\<open>xs.indexOf(v)\<close>, searching from position \<open>i\<close>: the first position, or -1.\<close>

fun index_from :: "'a list \<Rightarrow> 'a \<Rightarrow> int \<Rightarrow> int" where
  "index_from [] v i = - 1"
| "index_from (x # xs) v i = (if x = v then i else index_from xs v (i + 1))"

definition indexOf :: "'a list \<Rightarrow> 'a \<Rightarrow> int" where
  "indexOf xs v = index_from xs v 0"

text \<open>On numbers \<open>indexOf\<close> compares with \<open>===\<close>, which \<open>NaN\<close> never satisfies.\<close>

definition indexOf_num :: "jsnum list \<Rightarrow> jsnum \<Rightarrow> int" where
  "indexOf_num xs v = (if v = NaN then - 1 else indexOf xs v)"

record winner =
  name :: "string option"
  score :: jsnum
  index :: int

text \<open>\<open>getWinner\<close> returns \<open>null\<close> (here \<open>None\<close>) or the winner object.\<close>

definition getWinner :: "game \<Rightarrow> error + winner option" where
  "getWinner g =
     (if \<not> isGameComplete g then Inr None
      else (case getAllTotals g of
              Inl e \<Rightarrow> Inl e
            | Inr totals \<Rightarrow>
                (let minScore = Math_min totals;
                     winnerIndex = indexOf_num totals minScore
                 in Inr (Some \<lparr>name = js_nth (players g) winnerIndex,
                                score = minScore, index = winnerIndex\<rparr>))))"

definition reset :: "game \<Rightarrow> game" where
  "reset g = g\<lparr>players := [], scores := [], currentRound := 1\<rparr>"

section \<open>statistics.js: the Statistics class\<close>

definition MAX_HISTORY :: nat where
  "MAX_HISTORY = 50"

text \<open>
  A record of the history log. The fields \<open>id\<close>, \<open>players\<close>, \<open>scores\<close> and \<open>winner\<close> of the
  source carry the suffix \<open>_rec\<close> here.
\<close>

record game_record =
  id_rec :: int
  date :: string
  players_rec :: "string list"
  scores_rec :: "cell list list"
  winner_rec :: winner
  totalRounds :: nat
  timestamp :: int

text \<open>The snapshot handed to the statistics is the game as \<open>exportState\<close> gives it.\<close>

definition determineWinner :: "game \<Rightarrow> winner" where
  "determineWinner gameState =
     (let totals = map (\<lambda>playerScores.
                     foldl (\<lambda>sum c. case c of Hole \<Rightarrow> sum | Null \<Rightarrow> js_add sum (Fin 0)
                                      | Num n \<Rightarrow> js_add sum n)
                       (Fin 0) playerScores)
                   (scores gameState);
          minScore = Math_min totals;
          winnerIndex = indexOf_num totals minScore
      in \<lparr>name = js_nth (players gameState) winnerIndex,
          score = minScore, index = winnerIndex\<rparr>)"

text \<open>
  \<open>saveGame\<close>, with the three readings of the clock that it makes (\<open>Date.now()\<close>, the ISO
  date, \<open>Date.now()\<close> again) as arguments. \<open>gameState.scores[0].filter\<close> raises when there is
  no first row, before the log is touched; \<open>filter\<close> does not visit holes.
\<close>

definition saveGame ::
  "game_record list \<Rightarrow> game \<Rightarrow> int \<Rightarrow> string \<Rightarrow> int \<Rightarrow> (error + game_record) \<times> game_record list"
where
  "saveGame history gameState now1 isoDate now2 =
     (case scores gameState of
        [] \<Rightarrow> (Inl TypeError, history)
      | row0 # _ \<Rightarrow>
          (let gameRecord =
                 \<lparr>id_rec = now1, date = isoDate,
                  players_rec = players gameState, scores_rec = scores gameState,
                  winner_rec = determineWinner gameState,
                  totalRounds = length (filter (\<lambda>s. s \<noteq> Null) (filter (\<lambda>s. s \<noteq> Hole) row0)),
                  timestamp = now2\<rparr>;
               unshifted = gameRecord # history;
               kept = (if length unshifted > MAX_HISTORY then take MAX_HISTORY unshifted
                       else unshifted)
           in (Inr gameRecord, kept)))"

text \<open>Games saved one after the other, each with its clock readings.\<close>

fun save_games :: "game_record list \<Rightarrow> (game \<times> int \<times> string \<times> int) list \<Rightarrow> game_record list" where
  "save_games history [] = history"
| "save_games history ((gameState, now1, isoDate, now2) # rest) =
     save_games (snd (saveGame history gameState now1 isoDate now2)) rest"

text \<open>
  \<open>parseFloat(x.toFixed(1))\<close>. For a finite \<open>x\<close> below \<open>10^21\<close> in magnitude, \<open>toFixed(1)\<close>
  takes the integer \<open>n\<close> for which \<open>n / 10\<close> is nearest to the magnitude of \<open>x\<close>, the larger
  \<open>n\<close> when two are equally near, and writes \<open>n / 10\<close> with the sign of \<open>x\<close>; \<open>parseFloat\<close>
  reads that decimal as the nearest double. Any other \<open>x\<close> is written in full and read back
  unchanged.
\<close>

fun toFixed1 :: "jsnum \<Rightarrow> jsnum" where
  "toFixed1 (Fin x) =
     (if 10 ^ 21 \<le> \<bar>x\<bar> then Fin x
      else if x < 0 then round_double (- (of_int \<lfloor>(- x) * 10 + 1 / 2\<rfloor> / 10))
      else round_double (of_int \<lfloor>x * 10 + 1 / 2\<rfloor> / 10))"
| "toFixed1 x = x"

record player_stats =
  playerName :: string
  totalGames :: int
  wins :: int
  losses :: int
  winRate :: jsnum
  avgScore :: jsnum
  bestScore :: jsnum
  worstScore :: jsnum

text \<open>The counts are array lengths, which are exact as numbers.\<close>

definition getPlayerStats :: "game_record list \<Rightarrow> string \<Rightarrow> error + player_stats option" where
  "getPlayerStats history pName =
     (let playerGames = filter (\<lambda>game. pName \<in> set (players_rec game)) history in
      if length playerGames = 0 then Inr None
      else
        (let nWins = length (filter (\<lambda>game. name (winner_rec game) = Some pName) playerGames);
             nGames = length playerGames;
             rate = toFixed1 (js_mul (js_div (Fin (of_nat nWins)) (Fin (of_nat nGames))) (Fin 100))
         in case map_throw
                   (\<lambda>game. let playerIndex = indexOf (players_rec game) pName in
                      case js_nth (scores_rec game) playerIndex of
                        None \<Rightarrow> Inl TypeError
                      | Some row \<Rightarrow>
                          Inr (foldl (\<lambda>sum c. case c of Hole \<Rightarrow> sum | Null \<Rightarrow> js_add sum (Fin 0)
                                                | Num n \<Rightarrow> js_add sum n) (Fin 0) row))
                   playerGames of
              Inl e \<Rightarrow> Inl e
            | Inr allScores \<Rightarrow>
                Inr (Some \<lparr>playerName = pName,
                           totalGames = int nGames,
                           wins = int nWins,
                           losses = int nGames - int nWins,
                           winRate = rate,
                           avgScore = toFixed1 (js_div (foldl js_add (Fin 0) allScores)
                                                       (Fin (of_nat (length allScores)))),
                           bestScore = Math_min allScores,
                           worstScore = Math_max allScores\<rparr>)))"

definition deleteGame :: "game_record list \<Rightarrow> int \<Rightarrow> game_record list" where
  "deleteGame history gameId = filter (\<lambda>game. id_rec game \<noteq> gameId) history"

definition clearHistory :: "game_record list \<Rightarrow> game_record list" where
  "clearHistory history = []"

text \<open>
  \<open>importHistory\<close> starts with \<open>JSON.parse\<close>, a built-in of the language: the model takes
  what the parser makes of the input string. That is a syntax error, a value that is no
  array, or an array of objects; an object may lack (or hold a falsy value in) any of the
  three fields that the import checks, and is taken to carry a numeric \<open>id\<close> and \<open>timestamp\<close>
  as every record written by \<open>saveGame\<close> does.
\<close>

record raw_record =
  raw_id :: int
  raw_date :: string
  raw_players :: "string list option"
  raw_scores :: "cell list list option"
  raw_winner :: "winner option"
  raw_totalRounds :: nat
  raw_timestamp :: int

datatype parsed = SyntaxError | NotAnArray | Records "raw_record list"

text \<open>The check made on each imported object.\<close>

definition check_record :: "raw_record \<Rightarrow> error + game_record" where
  "check_record game =
     (case (raw_players game, raw_scores game, raw_winner game) of
        (Some p, Some s, Some w) \<Rightarrow>
          Inr \<lparr>id_rec = raw_id game, date = raw_date game, players_rec = p, scores_rec = s,
               winner_rec = w, totalRounds = raw_totalRounds game,
               timestamp = raw_timestamp game\<rparr>
      | _ \<Rightarrow> Inl (Error ''Invalid game record''))"

text \<open>
  \<open>Array.prototype.sort\<close> with a comparator. The sort is stable, and for a consistent
  comparator (here a difference of numbers) that fixes the result; insertion from the right
  computes it.
\<close>

fun insert_by :: "('a \<Rightarrow> 'a \<Rightarrow> int) \<Rightarrow> 'a \<Rightarrow> 'a list \<Rightarrow> 'a list" where
  "insert_by cmp x [] = [x]"
| "insert_by cmp x (y # ys) = (if cmp x y \<le> 0 then x # y # ys else y # insert_by cmp x ys)"

definition js_sort :: "('a \<Rightarrow> 'a \<Rightarrow> int) \<Rightarrow> 'a list \<Rightarrow> 'a list" where
  "js_sort cmp xs = foldr (insert_by cmp) xs []"

text \<open>
  Every exception inside the \<open>try\<close> block is caught and answered with \<open>false\<close>; the log is
  assigned only after the last step that can raise.
\<close>

definition importHistory :: "game_record list \<Rightarrow> parsed \<Rightarrow> bool \<times> game_record list" where
  "importHistory history jsonData =
     (case jsonData of
        SyntaxError \<Rightarrow> (False, history)
      | NotAnArray \<Rightarrow> (False, history)
      | Records imported \<Rightarrow>
          (case map_throw check_record imported of
             Inl e \<Rightarrow> (False, history)
           | Inr games \<Rightarrow>
               (let existingIds = set (map id_rec history);
                    newGames = filter (\<lambda>g. id_rec g \<notin> existingIds) games
                in (True, take MAX_HISTORY
                            (js_sort (\<lambda>a b. timestamp b - timestamp a) (history @ newGames))))))"

section \<open>Reachable states and sample games\<close>

text \<open>The states that the public operations of the class lead to, whatever their outcome.\<close>

inductive reachable :: "game \<Rightarrow> bool" where
  r_new: "reachable new_game"
| r_add: "reachable g \<Longrightarrow> reachable (snd (addPlayer g nm))"
| r_remove: "reachable g \<Longrightarrow> reachable (removePlayer g i)"
| r_start: "reachable g \<Longrightarrow> reachable (snd (startNewGame g playerNames))"
| r_submit: "reachable g \<Longrightarrow> reachable (snd (submitRound g roundScores))"
| r_undo: "reachable g \<Longrightarrow> reachable (snd (undoLastRound g))"
| r_reset: "reachable g \<Longrightarrow> reachable (reset g)"

text \<open>
  The states in which the roster has not been edited since the game was created, started or
  reset: only \<open>startNewGame\<close>, \<open>submitRound\<close>, \<open>undoLastRound\<close> and \<open>reset\<close> have run since.
\<close>

inductive in_play :: "game \<Rightarrow> bool" where
  p_new: "in_play new_game"
| p_started: "reachable g \<Longrightarrow> startNewGame g playerNames = (Inr (), g') \<Longrightarrow> in_play g'"
| p_reset: "reachable g \<Longrightarrow> in_play (reset g)"
| p_start: "in_play g \<Longrightarrow> in_play (snd (startNewGame g playerNames))"
| p_submit: "in_play g \<Longrightarrow> in_play (snd (submitRound g roundScores))"
| p_undo: "in_play g \<Longrightarrow> in_play (snd (undoLastRound g))"


text \<open>
  The shape that the data model gives the score matrix and the round counter: every row has
  \<open>maxRounds\<close> cells and \<open>currentRound\<close> lies between 1 and \<open>maxRounds + 1\<close>.
\<close>

definition shaped :: "game \<Rightarrow> bool" where
  "shaped g \<longleftrightarrow> (\<forall>row \<in> set (scores g). length row = nat maxRounds) \<and>
     1 \<le> currentRound g \<and> currentRound g \<le> maxRounds + 1"

text \<open>Rounds submitted one after the other, whatever each call's outcome.\<close>

fun submit_rounds :: "game \<Rightarrow> score list list \<Rightarrow> game" where
  "submit_rounds g [] = g"
| "submit_rounds g (r # rs) = submit_rounds (snd (submitRound g r)) rs"

text \<open>
  A row of whole-number scores and \<open>null\<close>s, the exact sum of its scores, and the sum of
  their magnitudes.
\<close>

definition int_row :: "int option list \<Rightarrow> cell list" where
  "int_row ks = map (\<lambda>k. of_score (map_option (\<lambda>n. Fin (of_int n)) k)) ks"

definition int_sum :: "int option list \<Rightarrow> int" where
  "int_sum ks = sum_list (map (\<lambda>k. case k of None \<Rightarrow> 0 | Some n \<Rightarrow> n) ks)"

definition abs_sum :: "int option list \<Rightarrow> int" where
  "abs_sum ks = sum_list (map (\<lambda>k. case k of None \<Rightarrow> 0 | Some n \<Rightarrow> \<bar>n\<bar>) ks)"

definition alice_bob :: game where
  "alice_bob = \<lparr>players = [''Alice'', ''Bob''],
               scores = [replicate 11 Null, replicate 11 Null],
               currentRound = 1\<rparr>"

definition alice_bob_done :: game where
  "alice_bob_done = \<lparr>players = [''Alice'', ''Bob''],
                    scores = [replicate 11 (Num (Fin 5)), replicate 10 (Num (Fin 4)) @ [Num (Fin 15)]],
                    currentRound = 12\<rparr>"

definition nobody_done :: game where
  "nobody_done = \<lparr>players = [], scores = [], currentRound = 12\<rparr>"

definition only_alice :: game where
  "only_alice = \<lparr>players = [''Alice''], scores = [], currentRound = 1\<rparr>"

text \<open>A completed game in which Alice's first score is \<open>NaN\<close>.\<close>

definition nan_done :: game where
  "nan_done = \<lparr>players = [''Alice'', ''Bob''],
               scores = [Num NaN # replicate 10 (Num (Fin 0)), replicate 11 (Num (Fin 0))],
               currentRound = 12\<rparr>"

text \<open>A completed game of two players to which a third was added afterwards.\<close>

definition carol_added :: game where
  "carol_added = \<lparr>players = [''Alice'', ''Bob'', ''Carol''],
                  scores = [replicate 11 (Num (Fin 5)), replicate 10 (Num (Fin 4)) @ [Num (Fin 15)]],
                  currentRound = 12\<rparr>"

text \<open>
  A completed game with scores beyond \<open>2^53\<close>: Alice has \<open>2^53\<close> and 1, Bob has \<open>2^53\<close>, and
  all their other scores are 0.
\<close>

definition big_done :: game where
  "big_done = \<lparr>players = [''Alice'', ''Bob''],
               scores = [Num (Fin (2 ^ 53)) # Num (Fin 1) # replicate 9 (Num (Fin 0)),
                         Num (Fin (2 ^ 53)) # replicate 10 (Num (Fin 0))],
               currentRound = 12\<rparr>"

text \<open>Fifty-five completed games, saved at the clock readings 0 to 54.\<close>

definition fifty_five :: "(game \<times> int \<times> string \<times> int) list" where
  "fifty_five = map (\<lambda>k. (alice_bob_done, int k, ''2025-01-01T00:00:00.000Z'', int k)) [0..<55]"

text \<open>A record of a game that player \<open>w\<close> won, and a log of four games of which Alice won two.\<close>

definition sample_record :: "int \<Rightarrow> string list \<Rightarrow> string \<Rightarrow> game_record" where
  "sample_record k ps w =
     \<lparr>id_rec = k, date = ''2025-01-01T00:00:00.000Z'', players_rec = ps,
      scores_rec = map (\<lambda>p. replicate 11 (Num (Fin (if p = w then 1 else 2)))) ps,
      winner_rec = \<lparr>name = Some w, score = Fin 11, index = indexOf ps w\<rparr>,
      totalRounds = 11, timestamp = k\<rparr>"

definition four_games :: "game_record list" where
  "four_games =
     [sample_record 4 [''Alice'', ''Bob''] ''Alice'',
      sample_record 3 [''Bob'', ''Alice''] ''Bob'',
      sample_record 2 [''Bob'', ''Alice''] ''Alice'',
      sample_record 1 [''Alice'', ''Bob''] ''Bob'']"

text \<open>
  The log after saving the game to which Carol was added: its one record lists three players
  and holds the two score rows of the game.
\<close>

definition carol_log :: "game_record list" where
  "carol_log = snd (saveGame [] carol_added 1 ''2025-01-01T00:00:00.000Z'' 1)"

text \<open>A record as the parser delivers it, whole or without its \<open>winner\<close>.\<close>

definition raw_of :: "game_record \<Rightarrow> raw_record" where
  "raw_of r =
     \<lparr>raw_id = id_rec r, raw_date = date r, raw_players = Some (players_rec r),
      raw_scores = Some (scores_rec r), raw_winner = Some (winner_rec r),
      raw_totalRounds = totalRounds r, raw_timestamp = timestamp r\<rparr>"

definition without_winner :: "raw_record \<Rightarrow> raw_record" where
  "without_winner r = r\<lparr>raw_winner := None\<rparr>"

section \<open>Starting a game\<close>

text \<open>
  C4. For a list of at least two names, \<open>startNewGame\<close> succeeds, the roster is that list in
  its order, the current round is 1, and the score matrix has one row per player, each of
  exactly 11 cells, every cell \<open>null\<close>. For a shorter list it fails with the error
  "At least 2 players required" (a validation error) and leaves the game as it was.
\<close>

theorem startNewGame_spec:
  "(2 \<le> length names \<longrightarrow>
      (\<exists>g'. startNewGame g names = (Inr (), g') \<and>
            players g' = names \<and> currentRound g' = 1 \<and>
            length (scores g') = length (players g') \<and>
            (\<forall>row \<in> set (scores g'). length row = 11 \<and> (\<forall>c \<in> set row. c = Null)))) \<and>
   (length names < 2 \<longrightarrow>
      startNewGame g names = (Inl (Error ''At least 2 players required''), g))"
  by (auto simp: startNewGame_def maxRounds_def)

theorem startNewGame_spec_witness:
  "2 \<le> length [''Alice'', ''Bob''] \<and>
   startNewGame new_game [''Alice'', ''Bob''] =
     (Inr (), \<lparr>players = [''Alice'', ''Bob''],
               scores = [replicate 11 Null, replicate 11 Null],
               currentRound = 1\<rparr>) \<and>
   length [''Alice''] < 2 \<and>
   startNewGame new_game [''Alice''] = (Inl (Error ''At least 2 players required''), new_game)"
  using startNewGame_spec [of "[''Alice'', ''Bob'']" new_game]
    startNewGame_spec [of "[''Alice'']" new_game]
  by (simp add: startNewGame_def new_game_def maxRounds_def)

section \<open>Writing a round\<close>

lemma js_set_nth: "0 \<le> i \<Longrightarrow> js_set row i v ! nat i = v"
  by (auto simp: js_set_def nth_append)

lemma js_set_other: "j < length row \<Longrightarrow> j \<noteq> nat i \<Longrightarrow> js_set row i v ! j = row ! j"
  by (auto simp: js_set_def nth_append)

lemma js_set_inside: "0 \<le> i \<Longrightarrow> nat i < length row \<Longrightarrow> js_set row i v = row[nat i := v]"
  by (simp add: js_set_def)

lemma store_scores_fits:
  "i + length vs \<le> length sc \<Longrightarrow>
   \<exists>sc'. store_scores sc col vs i = (True, sc') \<and> length sc' = length sc \<and>
     (\<forall>j < length sc. sc' ! j =
        (if i \<le> j \<and> j < i + length vs then js_set (sc ! j) col (of_score (vs ! (j - i)))
         else sc ! j))"
proof (induction vs arbitrary: sc i)
  case Nil
  then show ?case by auto
next
  case (Cons v vs)
  let ?sc = "sc[i := js_set (sc ! i) col (of_score v)]"
  from Cons.prems have i: "i < length sc" and fits: "Suc i + length vs \<le> length ?sc" by simp_all
  from Cons.IH [OF fits] obtain sc' where
    run: "store_scores ?sc col vs (Suc i) = (True, sc')" and len: "length sc' = length sc" and
    cells: "\<forall>j < length ?sc. sc' ! j =
        (if Suc i \<le> j \<and> j < Suc i + length vs
         then js_set (?sc ! j) col (of_score (vs ! (j - Suc i))) else ?sc ! j)"
    by auto
  have "\<forall>j < length sc. sc' ! j =
        (if i \<le> j \<and> j < i + length (v # vs)
         then js_set (sc ! j) col (of_score ((v # vs) ! (j - i))) else sc ! j)"
  proof (intro allI impI)
    fix j assume j: "j < length sc"
    show "sc' ! j = (if i \<le> j \<and> j < i + length (v # vs)
         then js_set (sc ! j) col (of_score ((v # vs) ! (j - i))) else sc ! j)"
    proof (cases "j = i")
      case True
      with cells j i show ?thesis by simp
    next
      case False
      with cells j i show ?thesis by (auto simp: nth_Cons')
    qed
  qed
  with run len i show ?case by simp
qed

lemma store_scores_flag:
  "fst (store_scores sc col vs i) \<longleftrightarrow> vs = [] \<or> i + length vs \<le> length sc"
  by (induction vs arbitrary: sc i) auto

lemma store_scores_length: "length (snd (store_scores sc col vs i)) = length sc"
  by (induction vs arbitrary: sc i) auto


lemma clear_scores_fits:
  "i + n \<le> length sc \<Longrightarrow>
   \<exists>sc'. clear_scores sc col n i = (True, sc') \<and> length sc' = length sc \<and>
     (\<forall>j < length sc. sc' ! j =
        (if i \<le> j \<and> j < i + n then js_set (sc ! j) col Null else sc ! j))"
proof (induction n arbitrary: sc i)
  case 0
  then show ?case by auto
next
  case (Suc n)
  let ?sc = "sc[i := js_set (sc ! i) col Null]"
  from Suc.prems have i: "i < length sc" and fits: "Suc i + n \<le> length ?sc" by simp_all
  from Suc.IH [OF fits] obtain sc' where
    run: "clear_scores ?sc col n (Suc i) = (True, sc')" and len: "length sc' = length sc" and
    cells: "\<forall>j < length ?sc. sc' ! j =
        (if Suc i \<le> j \<and> j < Suc i + n then js_set (?sc ! j) col Null else ?sc ! j)"
    by auto
  have "\<forall>j < length sc. sc' ! j =
        (if i \<le> j \<and> j < i + Suc n then js_set (sc ! j) col Null else sc ! j)"
  proof (intro allI impI)
    fix j assume j: "j < length sc"
    show "sc' ! j = (if i \<le> j \<and> j < i + Suc n then js_set (sc ! j) col Null else sc ! j)"
    proof (cases "j = i")
      case True
      with cells j i show ?thesis by simp
    next
      case False
      with cells j i show ?thesis by auto
    qed
  qed
  with run len i show ?case by simp
qed

lemma clear_scores_flag:
  "fst (clear_scores sc col n i) \<longleftrightarrow> n = 0 \<or> i + n \<le> length sc"
  by (induction n arbitrary: sc i) auto

lemma submitRound_ok:
  assumes cr: "currentRound g \<le> maxRounds"
    and len: "length rs = length (players g)"
    and rows: "length (players g) \<le> length (scores g)"
  shows "\<exists>sc'. submitRound g rs =
           (Inr (isGameComplete (g\<lparr>scores := sc', currentRound := currentRound g + 1\<rparr>)),
            g\<lparr>scores := sc', currentRound := currentRound g + 1\<rparr>) \<and>
         length sc' = length (scores g) \<and>
         (\<forall>j < length (scores g). sc' ! j =
            (if j < length (players g)
             then js_set (scores g ! j) (currentRound g - 1) (of_score (rs ! j))
             else scores g ! j))"
proof -
  from len rows have "0 + length rs \<le> length (scores g)" by simp
  from store_scores_fits [OF this, of "currentRound g - 1"] obtain sc' where
    run: "store_scores (scores g) (currentRound g - 1) rs 0 = (True, sc')" and
    l: "length sc' = length (scores g)" and
    cells: "\<forall>j < length (scores g). sc' ! j =
        (if 0 \<le> j \<and> j < 0 + length rs
         then js_set (scores g ! j) (currentRound g - 1) (of_score (rs ! (j - 0)))
         else scores g ! j)"
    by blast
  from cr len run have "submitRound g rs =
           (Inr (isGameComplete (g\<lparr>scores := sc', currentRound := currentRound g + 1\<rparr>)),
            g\<lparr>scores := sc', currentRound := currentRound g + 1\<rparr>)"
    by (simp add: submitRound_def Let_def)
  with l cells len show ?thesis by auto
qed

lemma submitRound_Inr:
  assumes "submitRound g rs = (Inr b, g')"
  shows "currentRound g \<le> maxRounds \<and> length rs = length (players g) \<and>
         (rs = [] \<or> length (players g) \<le> length (scores g))"
proof -
  from assms have cr: "currentRound g \<le> maxRounds" and len: "length rs = length (players g)"
    by (auto simp: submitRound_def split: if_splits)
  from assms cr len have "fst (store_scores (scores g) (currentRound g - 1) rs 0)"
    by (auto simp: submitRound_def Let_def split: prod.splits bool.splits)
  with cr len show ?thesis by (simp add: store_scores_flag)
qed


lemma submitRound_effect:
  assumes run: "submitRound g rs = (Inr b, g')" and cr1: "1 \<le> currentRound g"
  shows "players g' = players g \<and> currentRound g' = currentRound g + 1 \<and>
         (b \<longleftrightarrow> currentRound g + 1 > maxRounds) \<and>
         length (scores g') = length (scores g) \<and>
         (\<forall>i < length (players g).
            scores g' ! i ! nat (currentRound g - 1) = of_score (rs ! i) \<and>
            (\<forall>j < length (scores g ! i). j \<noteq> nat (currentRound g - 1) \<longrightarrow>
                 scores g' ! i ! j = scores g ! i ! j)) \<and>
         (\<forall>i < length (scores g). length (players g) \<le> i \<longrightarrow> scores g' ! i = scores g ! i)"
proof (cases "rs = []")
  case True
  with run show ?thesis
    by (auto simp: submitRound_def Let_def isGameComplete_def split: if_splits)
next
  case False
  with submitRound_Inr [OF run] have cr: "currentRound g \<le> maxRounds"
    and len: "length rs = length (players g)"
    and rows: "length (players g) \<le> length (scores g)" by simp_all
  from submitRound_ok [OF cr len rows] run obtain sc' where
    b: "b = isGameComplete (g\<lparr>scores := sc', currentRound := currentRound g + 1\<rparr>)" and
    g': "g' = g\<lparr>scores := sc', currentRound := currentRound g + 1\<rparr>" and
    l: "length sc' = length (scores g)" and
    cells: "\<forall>j < length (scores g). sc' ! j =
            (if j < length (players g)
             then js_set (scores g ! j) (currentRound g - 1) (of_score (rs ! j))
             else scores g ! j)"
    by auto
  from cr1 have col: "0 \<le> currentRound g - 1" by simp
  from b g' l cells rows col show ?thesis
    by (simp add: isGameComplete_def js_set_nth js_set_other)
qed

text \<open>
  C2. \<open>submitRound\<close> checks in the order of the source. When the game is complete
  (\<open>currentRound > maxRounds\<close>) it fails with "Game is already complete" (the state error);
  otherwise, when the number of scores differs from the number of players, it fails with
  "Score count must match player count" (the validation error); either failure leaves the
  whole game unchanged. When neither check fails and every player has a score row, it
  succeeds. On success, with \<open>currentRound \<ge> 1\<close>, cell \<open>scores[i][currentRound-1]\<close> holds
  \<open>roundScores[i]\<close> for every player \<open>i\<close>, no other existing cell has changed, the roster is the
  same, \<open>currentRound\<close> has grown by one, and the result is true exactly when the new
  \<open>currentRound\<close> exceeds \<open>maxRounds\<close>.
\<close>

theorem submitRound_spec:
  "(currentRound g > maxRounds \<longrightarrow>
      submitRound g rs = (Inl (Error ''Game is already complete''), g)) \<and>
   (currentRound g \<le> maxRounds \<and> length rs \<noteq> length (players g) \<longrightarrow>
      submitRound g rs = (Inl (Error ''Score count must match player count''), g)) \<and>
   (currentRound g \<le> maxRounds \<and> length rs = length (players g) \<and>
    length (players g) \<le> length (scores g) \<longrightarrow>
      (\<exists>b g'. submitRound g rs = (Inr b, g'))) \<and>
   (\<forall>b g'. submitRound g rs = (Inr b, g') \<and> 1 \<le> currentRound g \<longrightarrow>
      players g' = players g \<and> currentRound g' = currentRound g + 1 \<and>
      (b \<longleftrightarrow> currentRound g + 1 > maxRounds) \<and>
      length (scores g') = length (scores g) \<and>
      (\<forall>i < length (players g).
         scores g' ! i ! nat (currentRound g - 1) = of_score (rs ! i) \<and>
         (\<forall>j < length (scores g ! i). j \<noteq> nat (currentRound g - 1) \<longrightarrow>
              scores g' ! i ! j = scores g ! i ! j)) \<and>
      (\<forall>i < length (scores g). length (players g) \<le> i \<longrightarrow> scores g' ! i = scores g ! i))"
proof (intro conjI)
  show "currentRound g > maxRounds \<longrightarrow>
      submitRound g rs = (Inl (Error ''Game is already complete''), g)"
    by (simp add: submitRound_def)
  show "currentRound g \<le> maxRounds \<and> length rs \<noteq> length (players g) \<longrightarrow>
      submitRound g rs = (Inl (Error ''Score count must match player count''), g)"
    by (simp add: submitRound_def)
  show "currentRound g \<le> maxRounds \<and> length rs = length (players g) \<and>
    length (players g) \<le> length (scores g) \<longrightarrow>
      (\<exists>b g'. submitRound g rs = (Inr b, g'))"
    using submitRound_ok [of g rs] by blast
  show "\<forall>b g'. submitRound g rs = (Inr b, g') \<and> 1 \<le> currentRound g \<longrightarrow>
      players g' = players g \<and> currentRound g' = currentRound g + 1 \<and>
      (b \<longleftrightarrow> currentRound g + 1 > maxRounds) \<and>
      length (scores g') = length (scores g) \<and>
      (\<forall>i < length (players g).
         scores g' ! i ! nat (currentRound g - 1) = of_score (rs ! i) \<and>
         (\<forall>j < length (scores g ! i). j \<noteq> nat (currentRound g - 1) \<longrightarrow>
              scores g' ! i ! j = scores g ! i ! j)) \<and>
      (\<forall>i < length (scores g). length (players g) \<le> i \<longrightarrow> scores g' ! i = scores g ! i)"
  proof (intro allI impI)
    fix b g'
    assume "submitRound g rs = (Inr b, g') \<and> 1 \<le> currentRound g"
    then show "players g' = players g \<and> currentRound g' = currentRound g + 1 \<and>
      (b \<longleftrightarrow> currentRound g + 1 > maxRounds) \<and>
      length (scores g') = length (scores g) \<and>
      (\<forall>i < length (players g).
         scores g' ! i ! nat (currentRound g - 1) = of_score (rs ! i) \<and>
         (\<forall>j < length (scores g ! i). j \<noteq> nat (currentRound g - 1) \<longrightarrow>
              scores g' ! i ! j = scores g ! i ! j)) \<and>
      (\<forall>i < length (scores g). length (players g) \<le> i \<longrightarrow> scores g' ! i = scores g ! i)"
      using submitRound_effect [of g rs b g'] by simp
  qed
qed

theorem submitRound_spec_witness:
  "currentRound alice_bob_done > maxRounds \<and>
   submitRound alice_bob_done [Some (Fin 10), Some (Fin 15)] =
     (Inl (Error ''Game is already complete''), alice_bob_done) \<and>
   currentRound alice_bob \<le> maxRounds \<and> length [Some (Fin 10)] \<noteq> length (players alice_bob) \<and>
   submitRound alice_bob [Some (Fin 10)] =
     (Inl (Error ''Score count must match player count''), alice_bob) \<and>
   length [Some (Fin 10), Some (Fin 15)] = length (players alice_bob) \<and>
   length (players alice_bob) \<le> length (scores alice_bob) \<and>
   1 \<le> currentRound alice_bob \<and>
   submitRound alice_bob [Some (Fin 10), Some (Fin 15)] =
     (Inr False, alice_bob\<lparr>scores := [Num (Fin 10) # replicate 10 Null, Num (Fin 15) # replicate 10 Null],
                          currentRound := 2\<rparr>)"
proof -
  have h1: "currentRound alice_bob_done > maxRounds"
    by (simp add: alice_bob_done_def maxRounds_def)
  have h2: "currentRound alice_bob \<le> maxRounds \<and> length [Some (Fin 10)] \<noteq> length (players alice_bob)"
    by (simp add: alice_bob_def maxRounds_def)
  have h3: "currentRound alice_bob \<le> maxRounds \<and>
      length [Some (Fin 10), Some (Fin 15)] = length (players alice_bob) \<and>
      length (players alice_bob) \<le> length (scores alice_bob)"
    by (simp add: alice_bob_def maxRounds_def)
  have h4: "1 \<le> currentRound alice_bob" by (simp add: alice_bob_def)
  from submitRound_spec [of alice_bob_done "[Some (Fin 10), Some (Fin 15)]"] h1
  have c1: "submitRound alice_bob_done [Some (Fin 10), Some (Fin 15)] =
     (Inl (Error ''Game is already complete''), alice_bob_done)" by blast
  from submitRound_spec [of alice_bob "[Some (Fin 10)]"] h2
  have c2: "submitRound alice_bob [Some (Fin 10)] =
     (Inl (Error ''Score count must match player count''), alice_bob)" by blast
  from submitRound_spec [of alice_bob "[Some (Fin 10), Some (Fin 15)]"] h3
  obtain b g' where run: "submitRound alice_bob [Some (Fin 10), Some (Fin 15)] = (Inr b, g')" by blast
  have c3: "submitRound alice_bob [Some (Fin 10), Some (Fin 15)] =
     (Inr False, alice_bob\<lparr>scores := [Num (Fin 10) # replicate 10 Null, Num (Fin 15) # replicate 10 Null],
                          currentRound := 2\<rparr>)"
    by (simp add: alice_bob_def maxRounds_def submitRound_def js_set_def isGameComplete_def
      numeral_eq_Suc)
  from h1 h2 h3 h4 c1 c2 c3 show ?thesis by blast
qed

section \<open>Submitting before the game has started\<close>




section \<open>Undoing a round and submitting it again\<close>

lemma undoLastRound_ok:
  assumes cr: "currentRound g \<noteq> 1"
    and rows: "length (players g) \<le> length (scores g)"
  shows "\<exists>sc'. undoLastRound g = (Inr (), g\<lparr>currentRound := currentRound g - 1, scores := sc'\<rparr>) \<and>
         length sc' = length (scores g) \<and>
         (\<forall>j < length (scores g). sc' ! j =
            (if j < length (players g) then js_set (scores g ! j) (currentRound g - 2) Null
             else scores g ! j))"
proof -
  from rows have "0 + length (players g) \<le> length (scores g)" by simp
  from clear_scores_fits [OF this, of "currentRound g - 2"] obtain sc' where
    run: "clear_scores (scores g) (currentRound g - 2) (length (players g)) 0 = (True, sc')" and
    l: "length sc' = length (scores g)" and
    cells: "\<forall>j < length (scores g). sc' ! j =
        (if 0 \<le> j \<and> j < 0 + length (players g)
         then js_set (scores g ! j) (currentRound g - 2) Null else scores g ! j)"
    by blast
  have col: "currentRound g - 1 - 1 = currentRound g - 2" by simp
  from cr run have "undoLastRound g = (Inr (), g\<lparr>currentRound := currentRound g - 1, scores := sc'\<rparr>)"
    by (simp add: undoLastRound_def Let_def col)
  with l cells show ?thesis by auto
qed

lemma undo_resubmit:
  assumes cr2: "2 \<le> currentRound g" and cr12: "currentRound g \<le> maxRounds + 1"
    and rows: "length (players g) \<le> length (scores g)"
    and cols: "\<forall>i < length (players g). nat (currentRound g - 2) < length (scores g ! i)"
    and len: "length v = length (players g)"
    and same: "\<forall>i < length (players g). of_score (v ! i) = scores g ! i ! nat (currentRound g - 2)"
  shows "\<exists>g1. undoLastRound g = (Inr (), g1) \<and>
           players g1 = players g \<and> currentRound g1 = currentRound g - 1 \<and>
           length (scores g1) = length (scores g) \<and>
           (\<forall>i < length (players g). scores g1 ! i = (scores g ! i)[nat (currentRound g - 2) := Null]) \<and>
           submitRound g1 v = (Inr (isGameComplete g), g)"
proof -
  from cr2 have ne1: "currentRound g \<noteq> 1" and col0: "0 \<le> currentRound g - 2" by simp_all
  from undoLastRound_ok [OF ne1 rows] obtain sc1 where
    undo: "undoLastRound g = (Inr (), g\<lparr>currentRound := currentRound g - 1, scores := sc1\<rparr>)" and
    l1: "length sc1 = length (scores g)" and
    c1: "\<forall>j < length (scores g). sc1 ! j =
            (if j < length (players g) then js_set (scores g ! j) (currentRound g - 2) Null
             else scores g ! j)"
    by blast
  let ?g1 = "g\<lparr>currentRound := currentRound g - 1, scores := sc1\<rparr>"
  have cleared: "\<forall>i < length (players g). sc1 ! i = (scores g ! i)[nat (currentRound g - 2) := Null]"
    using c1 rows cols col0 by (simp add: js_set_inside)
  from cr12 have crle: "currentRound ?g1 \<le> maxRounds" by simp
  from len have len1: "length v = length (players ?g1)" by simp
  from rows l1 have rows1: "length (players ?g1) \<le> length (scores ?g1)" by simp
  from submitRound_ok [OF crle len1 rows1] obtain sc2 where
    sub: "submitRound ?g1 v =
           (Inr (isGameComplete (?g1\<lparr>scores := sc2, currentRound := currentRound ?g1 + 1\<rparr>)),
            ?g1\<lparr>scores := sc2, currentRound := currentRound ?g1 + 1\<rparr>)" and
    l2: "length sc2 = length (scores ?g1)" and
    c2: "\<forall>j < length (scores ?g1). sc2 ! j =
            (if j < length (players ?g1)
             then js_set (scores ?g1 ! j) (currentRound ?g1 - 1) (of_score (v ! j))
             else scores ?g1 ! j)"
    by blast
  have "sc2 = scores g"
  proof (rule nth_equalityI)
    from l1 l2 show "length sc2 = length (scores g)" by simp
  next
    fix j assume "j < length sc2"
    with l1 l2 have j: "j < length (scores g)" by simp
    show "sc2 ! j = scores g ! j"
    proof (cases "j < length (players g)")
      case True
      with cols have inside: "nat (currentRound g - 2) < length (scores g ! j)" by simp
      have col: "currentRound g - 1 - 1 = currentRound g - 2" by simp
      from c2 j l1 True have "sc2 ! j = js_set (sc1 ! j) (currentRound g - 2) (of_score (v ! j))"
        by (simp add: col)
      also from cleared True have "sc1 ! j = (scores g ! j)[nat (currentRound g - 2) := Null]"
        by simp
      also from inside col0 have "js_set ((scores g ! j)[nat (currentRound g - 2) := Null])
          (currentRound g - 2) (of_score (v ! j)) =
          (scores g ! j)[nat (currentRound g - 2) := of_score (v ! j)]"
        by (simp add: js_set_inside)
      also from same True have "\<dots> = scores g ! j" by simp
      finally show ?thesis .
    next
      case False
      with c2 c1 j l1 show ?thesis by simp
    qed
  qed
  with sub have "submitRound ?g1 v = (Inr (isGameComplete g), g)" by simp
  with undo l1 cleared show ?thesis by simp
qed


text \<open>
  C3. In a game at round 2 or later, the completed state \<open>currentRound = maxRounds + 1\<close>
  included, where every player has a score row that reaches the last round played:
  \<open>undoLastRound\<close> succeeds, steps \<open>currentRound\<close> back and sets that round's cell of every
  player to \<open>null\<close>; \<open>submitRound\<close> with the scores that were recorded for that round then
  gives back exactly the game before the undo (roster, score matrix and \<open>currentRound\<close>), and
  reports completion exactly when that game was complete. \<open>undoLastRound\<close> fails with
  "No rounds to undo" (the state error) exactly when \<open>currentRound\<close> is 1, and then leaves the
  game unchanged.
\<close>

theorem undo_resubmit_roundtrip:
  "(2 \<le> currentRound g \<and> currentRound g \<le> maxRounds + 1 \<and>
    length (players g) \<le> length (scores g) \<and>
    (\<forall>i < length (players g). nat (currentRound g - 2) < length (scores g ! i)) \<and>
    length v = length (players g) \<and>
    (\<forall>i < length (players g). of_score (v ! i) = scores g ! i ! nat (currentRound g - 2)) \<longrightarrow>
      (\<exists>g1. undoLastRound g = (Inr (), g1) \<and>
            players g1 = players g \<and> currentRound g1 = currentRound g - 1 \<and>
            length (scores g1) = length (scores g) \<and>
            (\<forall>i < length (players g).
               scores g1 ! i = (scores g ! i)[nat (currentRound g - 2) := Null]) \<and>
            submitRound g1 v = (Inr (isGameComplete g), g))) \<and>
   ((\<exists>g'. undoLastRound g = (Inl (Error ''No rounds to undo''), g')) \<longleftrightarrow> currentRound g = 1) \<and>
   (currentRound g = 1 \<longrightarrow> undoLastRound g = (Inl (Error ''No rounds to undo''), g))"
proof (intro conjI)
  show "2 \<le> currentRound g \<and> currentRound g \<le> maxRounds + 1 \<and>
    length (players g) \<le> length (scores g) \<and>
    (\<forall>i < length (players g). nat (currentRound g - 2) < length (scores g ! i)) \<and>
    length v = length (players g) \<and>
    (\<forall>i < length (players g). of_score (v ! i) = scores g ! i ! nat (currentRound g - 2)) \<longrightarrow>
      (\<exists>g1. undoLastRound g = (Inr (), g1) \<and>
            players g1 = players g \<and> currentRound g1 = currentRound g - 1 \<and>
            length (scores g1) = length (scores g) \<and>
            (\<forall>i < length (players g).
               scores g1 ! i = (scores g ! i)[nat (currentRound g - 2) := Null]) \<and>
            submitRound g1 v = (Inr (isGameComplete g), g))"
    using undo_resubmit [of g v] by blast
  show "(\<exists>g'. undoLastRound g = (Inl (Error ''No rounds to undo''), g')) \<longleftrightarrow> currentRound g = 1"
    by (auto simp: undoLastRound_def Let_def split: prod.splits bool.splits)
  show "currentRound g = 1 \<longrightarrow> undoLastRound g = (Inl (Error ''No rounds to undo''), g)"
    by (simp add: undoLastRound_def)
qed

lemma alice_bob_done_wf:
  "2 \<le> currentRound alice_bob_done \<and> currentRound alice_bob_done \<le> maxRounds + 1 \<and>
    length (players alice_bob_done) \<le> length (scores alice_bob_done) \<and>
    (\<forall>i < length (players alice_bob_done).
        nat (currentRound alice_bob_done - 2) < length (scores alice_bob_done ! i)) \<and>
    length [Some (Fin 5), Some (Fin 15)] = length (players alice_bob_done) \<and>
    (\<forall>i < length (players alice_bob_done).
        of_score ([Some (Fin 5), Some (Fin 15)] ! i) =
        scores alice_bob_done ! i ! nat (currentRound alice_bob_done - 2))"
  by (simp add: alice_bob_done_def maxRounds_def All_less_Suc numeral_2_eq_2 nth_append)

theorem undo_resubmit_roundtrip_witness:
  "isGameComplete alice_bob_done \<and>
   (\<exists>g1. undoLastRound alice_bob_done = (Inr (), g1) \<and> currentRound g1 = 11 \<and>
         submitRound g1 [Some (Fin 5), Some (Fin 15)] = (Inr True, alice_bob_done)) \<and>
   currentRound alice_bob = 1 \<and>
   undoLastRound alice_bob = (Inl (Error ''No rounds to undo''), alice_bob)"
proof -
  have fin: "isGameComplete alice_bob_done"
    by (simp add: isGameComplete_def alice_bob_done_def maxRounds_def)
  have cr: "currentRound alice_bob_done - 1 = 11" by (simp add: alice_bob_done_def)
  from undo_resubmit_roundtrip [of alice_bob_done "[Some (Fin 5), Some (Fin 15)]"] alice_bob_done_wf
  obtain g1 where "undoLastRound alice_bob_done = (Inr (), g1)"
    and "currentRound g1 = currentRound alice_bob_done - 1"
    and "submitRound g1 [Some (Fin 5), Some (Fin 15)] = (Inr (isGameComplete alice_bob_done), alice_bob_done)"
    by blast
  with fin cr have a: "\<exists>g1. undoLastRound alice_bob_done = (Inr (), g1) \<and> currentRound g1 = 11 \<and>
         submitRound g1 [Some (Fin 5), Some (Fin 15)] = (Inr True, alice_bob_done)" by auto
  have one: "currentRound alice_bob = 1" by (simp add: alice_bob_def)
  with undo_resubmit_roundtrip [of alice_bob "[]"]
  have b: "undoLastRound alice_bob = (Inl (Error ''No rounds to undo''), alice_bob)" by blast
  from fin a one b show ?thesis by blast
qed

section \<open>What holds in every reachable state\<close>

lemma js_set_length: "0 \<le> col \<Longrightarrow> nat col < length row \<Longrightarrow> length (js_set row col v) = length row"
  by (simp add: js_set_def)

lemma update_rows:
  assumes "\<forall>row \<in> set sc. length row = n" and "length x = n"
  shows "\<forall>row \<in> set (sc[i := x]). length row = n"
  using assms set_update_subset_insert [of sc i x] by auto

lemma store_scores_rows:
  "\<forall>row \<in> set sc. length row = n \<Longrightarrow> 0 \<le> col \<Longrightarrow> nat col < n \<Longrightarrow>
   \<forall>row \<in> set (snd (store_scores sc col vs i)). length row = n"
proof (induction vs arbitrary: sc i)
  case Nil
  then show ?case by simp
next
  case (Cons v vs)
  show ?case
  proof (cases "i < length sc")
    case True
    with Cons.prems have "length (js_set (sc ! i) col (of_score v)) = n"
      by (simp add: js_set_length)
    with Cons.prems(1) have "\<forall>row \<in> set (sc[i := js_set (sc ! i) col (of_score v)]). length row = n"
      by (rule update_rows)
    from Cons.IH [OF this Cons.prems(2,3)] True show ?thesis by simp
  next
    case False
    with Cons.prems show ?thesis by simp
  qed
qed

lemma clear_scores_rows:
  "\<forall>row \<in> set sc. length row = n \<Longrightarrow> 0 \<le> col \<Longrightarrow> nat col < n \<Longrightarrow>
   \<forall>row \<in> set (snd (clear_scores sc col k i)). length row = n"
proof (induction k arbitrary: sc i)
  case 0
  then show ?case by simp
next
  case (Suc k)
  show ?case
  proof (cases "i < length sc")
    case True
    with Suc.prems have "length (js_set (sc ! i) col Null) = n"
      by (simp add: js_set_length)
    with Suc.prems(1) have "\<forall>row \<in> set (sc[i := js_set (sc ! i) col Null]). length row = n"
      by (rule update_rows)
    from Suc.IH [OF this Suc.prems(2,3)] True show ?thesis by simp
  next
    case False
    with Suc.prems show ?thesis by simp
  qed
qed

lemma clear_scores_length: "length (snd (clear_scores sc col k i)) = length sc"
  by (induction k arbitrary: sc i) auto

lemma submitRound_snd:
  "snd (submitRound g rs) =
     (if currentRound g > maxRounds \<or> length rs \<noteq> length (players g) then g
      else if fst (store_scores (scores g) (currentRound g - 1) rs 0)
      then g\<lparr>scores := snd (store_scores (scores g) (currentRound g - 1) rs 0),
             currentRound := currentRound g + 1\<rparr>
      else g\<lparr>scores := snd (store_scores (scores g) (currentRound g - 1) rs 0)\<rparr>)"
  by (auto simp: submitRound_def Let_def split: prod.splits bool.splits)

lemma undoLastRound_snd:
  "snd (undoLastRound g) =
     (if currentRound g = 1 then g
      else g\<lparr>currentRound := currentRound g - 1,
             scores := snd (clear_scores (scores g) (currentRound g - 2) (length (players g)) 0)\<rparr>)"
proof -
  have "currentRound g - 1 - 1 = currentRound g - 2" by simp
  then show ?thesis
    by (auto simp: undoLastRound_def Let_def split: prod.splits bool.splits)
qed

lemma shaped_submit: "shaped g \<Longrightarrow> shaped (snd (submitRound g rs))"
  unfolding shaped_def submitRound_snd
  using store_scores_rows [of "scores g" "nat maxRounds" "currentRound g - 1" rs 0]
  by (auto simp: maxRounds_def)

lemma shaped_undo: "shaped g \<Longrightarrow> shaped (snd (undoLastRound g))"
  unfolding shaped_def undoLastRound_snd
  using clear_scores_rows [of "scores g" "nat maxRounds" "currentRound g - 2" "length (players g)" 0]
  by (auto simp: maxRounds_def)

lemma reachable_shaped: "reachable g \<Longrightarrow> shaped g"
proof (induction rule: reachable.induct)
  case r_new
  show ?case by (simp add: shaped_def new_game_def maxRounds_def)
next
  case (r_add g nm)
  then show ?case by (auto simp: shaped_def addPlayer_def Let_def)
next
  case (r_remove g i)
  then show ?case by (auto simp: shaped_def removePlayer_def)
next
  case (r_start g playerNames)
  then show ?case by (auto simp: shaped_def startNewGame_def maxRounds_def)
next
  case (r_submit g roundScores)
  then show ?case by (simp add: shaped_submit)
next
  case (r_undo g)
  then show ?case by (simp add: shaped_undo)
next
  case (r_reset g)
  then show ?case by (simp add: shaped_def reset_def maxRounds_def)
qed

lemma in_play_rows: "in_play g \<Longrightarrow> length (scores g) = length (players g)"
proof (induction rule: in_play.induct)
  case p_new
  show ?case by (simp add: new_game_def)
next
  case (p_started g playerNames g')
  then show ?case by (auto simp: startNewGame_def split: if_splits)
next
  case (p_reset g)
  show ?case by (simp add: reset_def)
next
  case (p_start g playerNames)
  then show ?case by (auto simp: startNewGame_def)
next
  case (p_submit g roundScores)
  then show ?case by (simp add: submitRound_snd store_scores_length)
next
  case (p_undo g)
  then show ?case by (simp add: undoLastRound_snd clear_scores_length)
qed

lemma in_play_reachable: "in_play g \<Longrightarrow> reachable g"
proof (induction rule: in_play.induct)
  case (p_started g playerNames g')
  from r_start [OF p_started(1), of playerNames] p_started(2) show ?case by simp
qed (auto intro: reachable.intros)

lemma reachable_rounds: "reachable g \<Longrightarrow> reachable (submit_rounds g rs)"
  by (induction rs arbitrary: g) (auto intro: r_submit)

lemma in_play_rounds: "in_play g \<Longrightarrow> in_play (submit_rounds g rs)"
  by (induction rs arbitrary: g) (auto intro: p_submit)

lemma alice_bob_started: "startNewGame new_game [''Alice'', ''Bob''] = (Inr (), alice_bob)"
  by (simp add: startNewGame_def new_game_def alice_bob_def maxRounds_def)

lemma alice_bob_played:
  "submit_rounds alice_bob (replicate 10 [Some (Fin 5), Some (Fin 4)] @ [[Some (Fin 5), Some (Fin 15)]]) = alice_bob_done"
  by (simp add: alice_bob_def alice_bob_done_def submitRound_def maxRounds_def js_set_def
      isGameComplete_def numeral_eq_Suc)

lemma nobody_played: "submit_rounds new_game (replicate 11 []) = nobody_done"
  by (simp add: new_game_def nobody_done_def submitRound_def maxRounds_def
      isGameComplete_def numeral_eq_Suc)

lemma only_alice_added: "snd (addPlayer new_game '' Alice '') = only_alice"
  by (simp add: addPlayer_def new_game_def only_alice_def trim_def is_space_def)


text \<open>
  C7 (as amended). In every state that the public operations reach, every row of the score
  matrix has exactly 11 cells and \<open>currentRound\<close> lies between 1 and \<open>maxRounds + 1\<close>. In every
  state reached without editing the roster since the game was created, started or reset
  (by \<open>startNewGame\<close>, \<open>submitRound\<close>, \<open>undoLastRound\<close> and \<open>reset\<close>), the matrix has as many rows as
  there are players. Once \<open>currentRound > maxRounds\<close>, \<open>submitRound\<close> is refused with
  "Game is already complete" and changes nothing.
\<close>

theorem game_invariant:
  "(reachable g \<longrightarrow>
      (\<forall>row \<in> set (scores g). length row = 11) \<and>
      1 \<le> currentRound g \<and> currentRound g \<le> maxRounds + 1) \<and>
   (in_play g \<longrightarrow> reachable g \<and> length (scores g) = length (players g)) \<and>
   (currentRound g > maxRounds \<longrightarrow>
      submitRound g rs = (Inl (Error ''Game is already complete''), g))"
proof (intro conjI impI)
  assume "reachable g"
  then have "shaped g" by (rule reachable_shaped)
  then show "\<forall>row \<in> set (scores g). length row = 11" "1 \<le> currentRound g"
    "currentRound g \<le> maxRounds + 1"
    by (simp_all add: shaped_def maxRounds_def)
next
  assume "in_play g"
  then show "reachable g" "length (scores g) = length (players g)"
    by (simp_all add: in_play_reachable in_play_rows)
next
  assume "currentRound g > maxRounds"
  then show "submitRound g rs = (Inl (Error ''Game is already complete''), g)"
    by (simp add: submitRound_def)
qed

theorem game_invariant_witness:
  "reachable alice_bob_done \<and> in_play alice_bob_done \<and>
   currentRound alice_bob_done > maxRounds \<and>
   length (scores alice_bob_done ! 0) = 11 \<and> length (scores alice_bob_done ! 1) = 11 \<and>
   length (scores alice_bob_done) = length (players alice_bob_done) \<and>
   submitRound alice_bob_done [Some (Fin 1), Some (Fin 2)] =
     (Inl (Error ''Game is already complete''), alice_bob_done)"
proof -
  from p_started [OF r_new alice_bob_started] have "in_play alice_bob" .
  then have "in_play (submit_rounds alice_bob (replicate 10 [Some (Fin 5), Some (Fin 4)] @ [[Some (Fin 5), Some (Fin 15)]]))"
    by (rule in_play_rounds)
  then have p: "in_play alice_bob_done" by (simp only: alice_bob_played)
  then have r: "reachable alice_bob_done" by (rule in_play_reachable)
  have c: "currentRound alice_bob_done > maxRounds"
    by (simp add: alice_bob_done_def maxRounds_def)
  have m: "scores alice_bob_done ! 0 \<in> set (scores alice_bob_done)"
    "scores alice_bob_done ! 1 \<in> set (scores alice_bob_done)"
    by (simp_all add: alice_bob_done_def)
  from game_invariant [of alice_bob_done "[Some (Fin 1), Some (Fin 2)]"] p r c m show ?thesis by blast
qed

text \<open>
  C7 as first stated fails during setup: \<open>addPlayer\<close> appends to the roster and allocates no
  score row, so after one \<open>addPlayer\<close> on a new game there is one player and no row.
\<close>

theorem roster_edit_breaks_row_count:
  "reachable only_alice \<and> length (scores only_alice) \<noteq> length (players only_alice)"
proof -
  from r_add [OF r_new, of "'' Alice ''"] have "reachable only_alice"
    by (simp only: only_alice_added)
  then show ?thesis by (simp add: only_alice_def)
qed

section \<open>Importing a history\<close>

lemma mset_insert_by: "mset (insert_by cmp x ys) = add_mset x (mset ys)"
  by (induction ys) simp_all

lemma mset_js_sort: "mset (js_sort cmp xs) = mset xs"
  by (induction xs) (simp_all add: js_sort_def mset_insert_by)

lemma set_insert_by: "set (insert_by cmp x ys) = insert x (set ys)"
  using mset_insert_by [of cmp x ys] by (metis set_mset_add_mset_insert set_mset_mset)

lemma sorted_insert_by:
  "sorted_wrt (\<lambda>a b. timestamp a \<ge> timestamp b) ys \<Longrightarrow>
   sorted_wrt (\<lambda>a b. timestamp a \<ge> timestamp b) (insert_by (\<lambda>a b. timestamp b - timestamp a) x ys)"
  by (induction ys) (auto simp: set_insert_by)

lemma sorted_js_sort:
  "sorted_wrt (\<lambda>a b. timestamp a \<ge> timestamp b) (js_sort (\<lambda>a b. timestamp b - timestamp a) xs)"
  by (induction xs) (simp_all add: js_sort_def sorted_insert_by)

lemma filter_insert_by:
  "filter (\<lambda>g. timestamp g = t) (insert_by (\<lambda>a b. timestamp b - timestamp a) x ys) =
   filter (\<lambda>g. timestamp g = t) (x # ys)"
  by (induction ys) auto

lemma stable_js_sort:
  "filter (\<lambda>g. timestamp g = t) (js_sort (\<lambda>a b. timestamp b - timestamp a) xs) =
   filter (\<lambda>g. timestamp g = t) xs"
proof (induction xs)
  case Nil
  show ?case by (simp add: js_sort_def)
next
  case (Cons x xs)
  have "js_sort (\<lambda>a b. timestamp b - timestamp a) (x # xs) =
        insert_by (\<lambda>a b. timestamp b - timestamp a) x (js_sort (\<lambda>a b. timestamp b - timestamp a) xs)"
    by (simp add: js_sort_def)
  with Cons.IH show ?case by (simp add: filter_insert_by)
qed

lemma check_record_whole:
  assumes "raw_players r \<noteq> None" "raw_scores r \<noteq> None" "raw_winner r \<noteq> None"
  shows "\<exists>g. check_record r = Inr g \<and> id_rec g = raw_id r \<and> timestamp g = raw_timestamp r \<and>
             date g = raw_date r \<and> totalRounds g = raw_totalRounds r \<and>
             Some (players_rec g) = raw_players r \<and> Some (scores_rec g) = raw_scores r \<and>
             Some (winner_rec g) = raw_winner r"
  using assms by (auto simp: check_record_def)

lemma check_record_lacking:
  "raw_players r = None \<or> raw_scores r = None \<or> raw_winner r = None \<Longrightarrow>
   check_record r = Inl (Error ''Invalid game record'')"
  by (auto simp: check_record_def split: option.splits)

lemma map_throw_raises:
  "\<exists>x \<in> set xs. \<exists>e. f x = Inl e \<Longrightarrow> \<exists>e. map_throw f xs = Inl e"
proof (induction xs)
  case Nil
  then show ?case by simp
next
  case (Cons x xs)
  show ?case
  proof (cases "f x")
    case (Inl e)
    then show ?thesis by simp
  next
    case (Inr y)
    with Cons.prems have "\<exists>x \<in> set xs. \<exists>e. f x = Inl e" by auto
    from Cons.IH [OF this] Inr show ?thesis by auto
  qed
qed

lemma map_throw_returns:
  "\<forall>x \<in> set xs. \<exists>y. f x = Inr y \<Longrightarrow> \<exists>ys. map_throw f xs = Inr ys \<and> map Inr ys = map f xs"
  by (induction xs) (auto split: sum.splits)

lemma checked_fields:
  assumes whole: "\<forall>r \<in> set rs. raw_players r \<noteq> None \<and> raw_scores r \<noteq> None \<and> raw_winner r \<noteq> None"
  shows "\<exists>games. map_throw check_record rs = Inr games \<and>
           map id_rec games = map raw_id rs \<and> map timestamp games = map raw_timestamp rs \<and>
           map (\<lambda>g. Some (players_rec g)) games = map raw_players rs \<and>
           map (\<lambda>g. Some (scores_rec g)) games = map raw_scores rs \<and>
           map (\<lambda>g. Some (winner_rec g)) games = map raw_winner rs"
  using whole
proof (induction rs)
  case Nil
  show ?case by simp
next
  case (Cons r rs)
  from Cons.prems have "raw_players r \<noteq> None" "raw_scores r \<noteq> None" "raw_winner r \<noteq> None"
    by simp_all
  from check_record_whole [OF this] obtain g where
    g: "check_record r = Inr g" "id_rec g = raw_id r" "timestamp g = raw_timestamp r"
      "Some (players_rec g) = raw_players r" "Some (scores_rec g) = raw_scores r"
      "Some (winner_rec g) = raw_winner r" by blast
  from Cons.prems have "\<forall>r \<in> set rs. raw_players r \<noteq> None \<and> raw_scores r \<noteq> None \<and> raw_winner r \<noteq> None"
    by simp
  from Cons.IH [OF this] obtain games where
    games: "map_throw check_record rs = Inr games"
      "map id_rec games = map raw_id rs" "map timestamp games = map raw_timestamp rs"
      "map (\<lambda>g. Some (players_rec g)) games = map raw_players rs"
      "map (\<lambda>g. Some (scores_rec g)) games = map raw_scores rs"
      "map (\<lambda>g. Some (winner_rec g)) games = map raw_winner rs" by blast
  from g games show ?case by (intro exI [of _ "g # games"]) simp
qed

lemma check_record_fields:
  "check_record r = Inr g \<Longrightarrow>
   id_rec g = raw_id r \<and> timestamp g = raw_timestamp r \<and> date g = raw_date r \<and>
   totalRounds g = raw_totalRounds r \<and> Some (players_rec g) = raw_players r \<and>
   Some (scores_rec g) = raw_scores r \<and> Some (winner_rec g) = raw_winner r"
  by (auto simp: check_record_def split: option.splits)

lemma map_throw_fields:
  "map_throw check_record rs = Inr games \<Longrightarrow>
   map id_rec games = map raw_id rs \<and> map timestamp games = map raw_timestamp rs \<and>
   map date games = map raw_date rs \<and> map totalRounds games = map raw_totalRounds rs \<and>
   map (\<lambda>g. Some (players_rec g)) games = map raw_players rs \<and>
   map (\<lambda>g. Some (scores_rec g)) games = map raw_scores rs \<and>
   map (\<lambda>g. Some (winner_rec g)) games = map raw_winner rs"
proof (induction rs arbitrary: games)
  case Nil
  then show ?case by simp
next
  case (Cons r rs)
  from Cons.prems obtain g games' where
    g: "check_record r = Inr g" and rest: "map_throw check_record rs = Inr games'" and
    games: "games = g # games'"
    by (auto split: sum.splits)
  from check_record_fields [OF g] Cons.IH [OF rest] games show ?case by simp
qed

text \<open>
  C8. \<open>importHistory\<close> never raises. It answers \<open>false\<close> and leaves the log as it was when
  the input is not valid JSON, when the parsed value is not an array, and when a record of
  the array lacks \<open>players\<close>, \<open>scores\<close> or \<open>winner\<close>. When every record has the three fields
  it answers \<open>true\<close>, and the new log is the first 50 records of a list that holds every
  record of the old log and exactly those imported records whose \<open>id\<close> is not an \<open>id\<close> of the
  old log, in descending order of \<open>timestamp\<close>, records of equal \<open>timestamp\<close> in the order
  they had (old log first, then the imported ones). An imported record keeps all seven fields
  of the object it was read from.
\<close>

theorem importHistory_spec:
  "importHistory h SyntaxError = (False, h) \<and>
   importHistory h NotAnArray = (False, h) \<and>
   ((\<exists>r \<in> set rs. raw_players r = None \<or> raw_scores r = None \<or> raw_winner r = None) \<longrightarrow>
      importHistory h (Records rs) = (False, h)) \<and>
   ((\<forall>r \<in> set rs. raw_players r \<noteq> None \<and> raw_scores r \<noteq> None \<and> raw_winner r \<noteq> None) \<longrightarrow>
      (\<exists>games merged.
         map id_rec games = map raw_id rs \<and> map timestamp games = map raw_timestamp rs \<and>
         map date games = map raw_date rs \<and> map totalRounds games = map raw_totalRounds rs \<and>
         map (\<lambda>g. Some (players_rec g)) games = map raw_players rs \<and>
         map (\<lambda>g. Some (scores_rec g)) games = map raw_scores rs \<and>
         map (\<lambda>g. Some (winner_rec g)) games = map raw_winner rs \<and>
         mset merged = mset h + mset (filter (\<lambda>g. id_rec g \<notin> id_rec ` set h) games) \<and>
         sorted_wrt (\<lambda>a b. timestamp a \<ge> timestamp b) merged \<and>
         (\<forall>t. filter (\<lambda>g. timestamp g = t) merged =
              filter (\<lambda>g. timestamp g = t) (h @ filter (\<lambda>g. id_rec g \<notin> id_rec ` set h) games)) \<and>
         importHistory h (Records rs) = (True, take 50 merged)))"
proof (intro conjI impI)
  show "importHistory h SyntaxError = (False, h)" by (simp add: importHistory_def)
  show "importHistory h NotAnArray = (False, h)" by (simp add: importHistory_def)
next
  assume "\<exists>r \<in> set rs. raw_players r = None \<or> raw_scores r = None \<or> raw_winner r = None"
  then have "\<exists>r \<in> set rs. \<exists>e. check_record r = Inl e"
    using check_record_lacking by blast
  then obtain e where "map_throw check_record rs = Inl e"
    using map_throw_raises [of rs check_record] by blast
  then show "importHistory h (Records rs) = (False, h)" by (simp add: importHistory_def)
next
  assume "\<forall>r \<in> set rs. raw_players r \<noteq> None \<and> raw_scores r \<noteq> None \<and> raw_winner r \<noteq> None"
  from checked_fields [OF this] obtain games where
    games: "map_throw check_record rs = Inr games"
      "map id_rec games = map raw_id rs" "map timestamp games = map raw_timestamp rs"
      "map (\<lambda>g. Some (players_rec g)) games = map raw_players rs"
      "map (\<lambda>g. Some (scores_rec g)) games = map raw_scores rs"
      "map (\<lambda>g. Some (winner_rec g)) games = map raw_winner rs" by blast
  let ?new = "filter (\<lambda>g. id_rec g \<notin> id_rec ` set h) games"
  let ?merged = "js_sort (\<lambda>a b. timestamp b - timestamp a) (h @ ?new)"
  have m: "mset ?merged = mset h + mset ?new" by (simp add: mset_js_sort)
  have s: "sorted_wrt (\<lambda>a b. timestamp a \<ge> timestamp b) ?merged" by (rule sorted_js_sort)
  have st: "\<forall>t. filter (\<lambda>g. timestamp g = t) ?merged = filter (\<lambda>g. timestamp g = t) (h @ ?new)"
    by (intro allI stable_js_sort)
  from games(1) have run: "importHistory h (Records rs) = (True, take 50 ?merged)"
    by (simp add: importHistory_def Let_def MAX_HISTORY_def)
  from map_throw_fields [OF games(1)]
  have more: "map date games = map raw_date rs" "map totalRounds games = map raw_totalRounds rs"
    by simp_all
  from games(2-6) more m s st run
  show "\<exists>games merged.
         map id_rec games = map raw_id rs \<and> map timestamp games = map raw_timestamp rs \<and>
         map date games = map raw_date rs \<and> map totalRounds games = map raw_totalRounds rs \<and>
         map (\<lambda>g. Some (players_rec g)) games = map raw_players rs \<and>
         map (\<lambda>g. Some (scores_rec g)) games = map raw_scores rs \<and>
         map (\<lambda>g. Some (winner_rec g)) games = map raw_winner rs \<and>
         mset merged = mset h + mset (filter (\<lambda>g. id_rec g \<notin> id_rec ` set h) games) \<and>
         sorted_wrt (\<lambda>a b. timestamp a \<ge> timestamp b) merged \<and>
         (\<forall>t. filter (\<lambda>g. timestamp g = t) merged =
              filter (\<lambda>g. timestamp g = t) (h @ filter (\<lambda>g. id_rec g \<notin> id_rec ` set h) games)) \<and>
         importHistory h (Records rs) = (True, take 50 merged)"
    by (intro exI [of _ games] exI [of _ ?merged]) simp
qed


theorem importHistory_spec_witness:
  "importHistory [sample_record 1 [''Alice'', ''Bob''] ''Alice''] SyntaxError =
     (False, [sample_record 1 [''Alice'', ''Bob''] ''Alice'']) \<and>
   importHistory [sample_record 1 [''Alice'', ''Bob''] ''Alice''] NotAnArray =
     (False, [sample_record 1 [''Alice'', ''Bob''] ''Alice'']) \<and>
   raw_winner (without_winner (raw_of (sample_record 2 [''Alice'', ''Bob''] ''Bob''))) = None \<and>
   importHistory [sample_record 1 [''Alice'', ''Bob''] ''Alice'']
       (Records [without_winner (raw_of (sample_record 2 [''Alice'', ''Bob''] ''Bob''))]) =
     (False, [sample_record 1 [''Alice'', ''Bob''] ''Alice'']) \<and>
   importHistory [sample_record 1 [''Alice'', ''Bob''] ''Alice'']
       (Records [raw_of (sample_record 1 [''Alice'', ''Bob''] ''Alice''),
                 raw_of (sample_record 2 [''Alice'', ''Bob''] ''Bob'')]) =
     (True, [sample_record 2 [''Alice'', ''Bob''] ''Bob'',
             sample_record 1 [''Alice'', ''Bob''] ''Alice''])"
proof -
  let ?r1 = "sample_record 1 [''Alice'', ''Bob''] ''Alice''"
  let ?r2 = "sample_record 2 [''Alice'', ''Bob''] ''Bob''"
  let ?bad = "[without_winner (raw_of ?r2)]"
  let ?good = "[raw_of ?r1, raw_of ?r2]"
  have lack: "raw_winner (without_winner (raw_of ?r2)) = None"
    by (simp add: without_winner_def)
  then have hb: "\<exists>r \<in> set ?bad. raw_players r = None \<or> raw_scores r = None \<or> raw_winner r = None"
    by simp
  have hg: "\<forall>r \<in> set ?good. raw_players r \<noteq> None \<and> raw_scores r \<noteq> None \<and> raw_winner r \<noteq> None"
    by (simp add: raw_of_def)
  from importHistory_spec [of "[?r1]" ?bad] hb
  have a: "importHistory [?r1] SyntaxError = (False, [?r1])"
    and b: "importHistory [?r1] NotAnArray = (False, [?r1])"
    and c: "importHistory [?r1] (Records ?bad) = (False, [?r1])" by blast+
  from importHistory_spec [of "[?r1]" ?good] hg
  have "fst (importHistory [?r1] (Records ?good))" by auto
  moreover have "snd (importHistory [?r1] (Records ?good)) = [?r2, ?r1]"
    by (simp add: importHistory_def check_record_def raw_of_def sample_record_def js_sort_def
        MAX_HISTORY_def Let_def)
  ultimately have d: "importHistory [?r1] (Records ?good) = (True, [?r2, ?r1])"
    by (simp add: prod_eq_iff)
  from lack a b c d show ?thesis by blast
qed


section \<open>Numbers\<close>

text \<open>
  How \<open>round_double\<close> behaves: it stays within half a unit in the last place, and it returns
  unchanged what is a double already (an integer of magnitude up to \<open>2^53\<close> times a power of
  two in range).
\<close>

lemma exponent_bounds:
  assumes "x \<noteq> 0"
  shows "2 powi exponent x \<le> \<bar>x\<bar>" and "\<bar>x\<bar> < 2 powi (exponent x + 1)"
proof -
  define a where "a = \<bar>x\<bar>"
  from assms have a0: "0 < a" by (simp add: a_def)
  have "2 powi exponent x \<le> a \<and> a < 2 powi (exponent x + 1)"
  proof (cases "1 \<le> a")
    case True
    define n where "n = \<lfloor>a\<rfloor>"
    from True have n1: "0 < n" by (simp add: n_def)
    define b where "b = bitlen n"
    from bitlen_bounds [OF n1] have lo: "2 ^ nat (b - 1) \<le> n" and hi: "n < 2 ^ nat b"
      by (simp_all add: b_def)
    from n1 have b1: "1 \<le> b" using bitlen_eq_zero_iff [of n] bitlen_nonneg [of n]
      by (simp add: b_def)
    from True have e: "exponent x = b - 1" by (simp add: exponent_def a_def [symmetric] n_def b_def)
    have "(2::rat) powi (b - 1) = 2 ^ nat (b - 1)" using b1 by (simp add: power_int_def)
    also have "\<dots> = of_int (2 ^ nat (b - 1))" by simp
    also have "\<dots> \<le> of_int n" using lo by (simp only: of_int_le_iff)
    also have "\<dots> \<le> a" by (simp add: n_def)
    finally have l: "2 powi (b - 1) \<le> a" .
    have "a < of_int n + 1" unfolding n_def by linarith
    also have "\<dots> = of_int (n + 1)" by simp
    also have "\<dots> \<le> of_int (2 ^ nat b)" using hi by (simp only: of_int_le_iff)
    also have "\<dots> = (2::rat) powi b" using b1 by (simp add: power_int_def)
    finally have "a < 2 powi b" .
    with l e show ?thesis by simp
  next
    case False
    define y where "y = 1 / a"
    from False a0 have y1: "1 < y" by (simp add: y_def)
    define c where "c = \<lceil>y\<rceil>"
    from y1 have c2: "0 < c - 1" by (simp add: c_def)
    define b where "b = bitlen (c - 1)"
    from bitlen_bounds [OF c2] have lo: "2 ^ nat (b - 1) \<le> c - 1" and hi: "c - 1 < 2 ^ nat b"
      by (simp_all add: b_def)
    from c2 have b1: "1 \<le> b" using bitlen_eq_zero_iff [of "c - 1"] bitlen_nonneg [of "c - 1"]
      by (simp add: b_def)
    from False have e: "exponent x = - b"
      unfolding b_def c_def y_def a_def exponent_def Let_def by simp
    have "y \<le> of_int c" by (simp add: c_def)
    also have "\<dots> \<le> of_int (2 ^ nat b)" using hi by (simp only: of_int_le_iff)
    also have "\<dots> = (2::rat) ^ nat b" by simp
    finally have "y \<le> 2 ^ nat b" .
    then have "1 \<le> a * 2 ^ nat b" using a0 by (simp add: y_def pos_divide_le_eq mult.commute)
    then have "1 / 2 ^ nat b \<le> a" by (simp add: pos_divide_le_eq)
    moreover have "(2::rat) powi (- b) = 1 / 2 ^ nat b"
      using b1 by (simp add: power_int_def power_one_over)
    ultimately have l: "2 powi (- b) \<le> a" by simp
    have "(2::rat) ^ nat (b - 1) = of_int (2 ^ nat (b - 1))" by simp
    also have "\<dots> \<le> of_int (c - 1)" using lo by (simp only: of_int_le_iff)
    also have "\<dots> < y" unfolding c_def by linarith
    finally have "2 ^ nat (b - 1) < y" .
    then have "a * 2 ^ nat (b - 1) < 1" using a0 by (simp add: y_def pos_less_divide_eq mult.commute)
    then have "a < 1 / 2 ^ nat (b - 1)" by (simp add: pos_less_divide_eq)
    moreover have "(2::rat) powi (- b + 1) = 1 / 2 ^ nat (b - 1)"
    proof -
      have "- b + 1 = - (b - 1)" by simp
      then have "(2::rat) powi (- b + 1) = inverse (2 powi (b - 1))"
        by (simp only: power_int_minus)
      also have "(2::rat) powi (b - 1) = 2 ^ nat (b - 1)" using b1 by (simp add: power_int_def)
      finally show ?thesis by (simp add: inverse_eq_divide)
    qed
    ultimately have "a < 2 powi (- b + 1)" by simp
    with l e show ?thesis by simp
  qed
  then show "2 powi exponent x \<le> \<bar>x\<bar>" and "\<bar>x\<bar> < 2 powi (exponent x + 1)"
    by (simp_all add: a_def)
qed

lemma round_even_int [simp]: "round_even (of_int k) = k"
  by (simp add: round_even_def)

lemma round_even_near: "\<bar>of_int (round_even x) - x\<bar> \<le> 1 / 2"
proof -
  have "of_int \<lfloor>x\<rfloor> \<le> x" "x < of_int \<lfloor>x\<rfloor> + 1" by linarith+
  then show ?thesis by (auto simp: round_even_def Let_def abs_le_iff)
qed


lemma pow2_pos: "0 < (2::rat) powi k"
  by simp

lemma pow2_le: "m \<le> n \<Longrightarrow> (2::rat) powi m \<le> 2 powi n"
  by (rule power_int_increasing) simp_all

lemma pow2_less: "m < n \<Longrightarrow> (2::rat) powi m < 2 powi n"
  by (rule power_int_strict_increasing) simp_all

lemma pow2_le_D: "(2::rat) powi m \<le> 2 powi n \<Longrightarrow> m \<le> n"
  using pow2_less [of n m] by (cases "m \<le> n") auto

lemma pow2_less_D: "(2::rat) powi m < 2 powi n \<Longrightarrow> m < n"
  using pow2_le [of n m] by (cases "m < n") auto

lemma pow2_Suc: "(2::rat) powi (k + 1) = 2 * 2 powi k"
  by (simp add: power_int_add)

lemma round_double_near:
  assumes le: "\<bar>x\<bar> \<le> 2 powi k" and lo: "- 1022 \<le> k" and hi: "k \<le> 1023"
  shows "\<exists>r. round_double x = Fin r \<and> \<bar>r - x\<bar> \<le> 2 powi (k - 53)"
proof (cases "x = 0")
  case True
  then show ?thesis by (simp add: round_double_def less_imp_le)
next
  case False
  define e where "e = max (exponent x) (- 1022)"
  define q :: rat where "q = 2 powi (e - 52)"
  define r where "r = of_int (round_even (x / q)) * q"
  have q0: "0 < q" by (simp add: q_def)
  from exponent_bounds(1) [OF False] le have "(2::rat) powi exponent x \<le> 2 powi k" by simp
  then have "exponent x \<le> k" by (rule pow2_le_D)
  with lo have ek: "e \<le> k" by (simp add: e_def)
  have "\<bar>of_int (round_even (x / q)) - x / q\<bar> \<le> 1 / 2" by (rule round_even_near)
  then have "\<bar>of_int (round_even (x / q)) - x / q\<bar> * q \<le> 1 / 2 * q"
    using q0 by (simp only: mult_le_cancel_right_pos)
  moreover have "\<bar>of_int (round_even (x / q)) - x / q\<bar> * q = \<bar>r - x\<bar>"
  proof -
    have "\<bar>of_int (round_even (x / q)) - x / q\<bar> * q = \<bar>(of_int (round_even (x / q)) - x / q) * q\<bar>"
      using q0 by (simp add: abs_mult)
    also have "(of_int (round_even (x / q)) - x / q) * q = r - x"
      using q0 by (simp add: r_def left_diff_distrib)
    finally show ?thesis .
  qed
  moreover have "1 / 2 * q = 2 powi (e - 53)"
  proof -
    have "(2::rat) powi (e - 52) = 2 powi ((e - 53) + 1)" by simp
    also have "\<dots> = 2 * 2 powi (e - 53)" by (rule pow2_Suc)
    finally show ?thesis by (simp add: q_def)
  qed
  ultimately have near: "\<bar>r - x\<bar> \<le> 2 powi (e - 53)" by simp
  also have "(2::rat) powi (e - 53) \<le> 2 powi (k - 53)" using ek by (intro pow2_le) simp
  finally have near_k: "\<bar>r - x\<bar> \<le> 2 powi (k - 53)" .
  have "(2::rat) powi (k - 53) < 2 powi k" by (intro pow2_less) simp
  with near_k le have "\<bar>r\<bar> < 2 powi k + 2 powi k" by linarith
  also have "\<dots> = 2 powi (k + 1)" by (simp add: pow2_Suc)
  also have "\<dots> \<le> 2 powi 1024" using hi by (intro pow2_le) simp
  finally have bound: "\<bar>r\<bar> < 2 powi 1024" .
  then have "\<not> 2 powi 1024 \<le> r" "\<not> r \<le> - (2 powi 1024)" by linarith+
  with False have "round_double x = Fin r"
    unfolding round_double_def Let_def r_def q_def e_def by simp
  with near_k show ?thesis by blast
qed

lemma round_double_dyadic:
  assumes n53: "\<bar>n\<bar> \<le> 2 ^ 53" and klo: "- 1074 \<le> k" and khi: "k \<le> 970"
  shows "round_double (of_int n * 2 powi k) = Fin (of_int n * 2 powi k)"
proof (cases "n = 0")
  case True
  then show ?thesis by (simp add: round_double_def)
next
  case False
  define x :: rat where "x = of_int n * 2 powi k"
  from False have x0: "x \<noteq> 0" by (simp add: x_def)
  define e0 where "e0 = exponent x"
  define e where "e = max e0 (- 1022)"
  define q :: rat where "q = 2 powi (e - 52)"
  have absx: "\<bar>x\<bar> = of_int \<bar>n\<bar> * 2 powi k" by (simp add: x_def abs_mult)
  from n53 have "(of_int \<bar>n\<bar> :: rat) \<le> of_int (2 ^ 53)" by (simp only: of_int_le_iff)
  then have "(of_int \<bar>n\<bar> :: rat) \<le> 2 powi 53" by simp
  then have "\<bar>x\<bar> \<le> 2 powi 53 * 2 powi k"
    unfolding absx by (intro mult_right_mono) simp_all
  also have "\<dots> = 2 powi (53 + k)" by (simp add: power_int_add)
  finally have xhi: "\<bar>x\<bar> \<le> 2 powi (53 + k)" .
  from exponent_bounds(1) [OF x0] xhi have "(2::rat) powi e0 \<le> 2 powi (53 + k)"
    by (simp add: e0_def)
  then have e0hi: "e0 \<le> 53 + k" by (rule pow2_le_D)
  with klo have ehi: "e \<le> 53 + k" by (simp add: e_def)
  have exact: "of_int (round_even (x / q)) * q = x"
  proof (cases "e \<le> 52 + k")
    case True
    define j where "j = nat (52 + k - e)"
    from True have kj: "k = (e - 52) + int j" by (simp add: j_def)
    have "(2::rat) powi k = 2 powi (e - 52) * 2 powi int j"
      by (subst kj) (simp add: power_int_add)
    then have xq: "x = of_int (n * 2 ^ j) * q" by (simp add: x_def q_def)
    have "q \<noteq> 0" by (simp add: q_def)
    with xq have "x / q = of_int (n * 2 ^ j)" by simp
    then have "round_even (x / q) = n * 2 ^ j" by (simp only: round_even_int)
    with xq show ?thesis by simp
  next
    case False
    with ehi have e: "e = 53 + k" by simp
    with klo have "e \<noteq> - 1022" by simp
    then have "e = e0" by (simp add: e_def max_def split: if_splits)
    with e exponent_bounds(1) [OF x0] have "2 powi (53 + k) \<le> \<bar>x\<bar>" by (simp add: e0_def)
    with xhi have "\<bar>x\<bar> = 2 powi 53 * 2 powi k" by (simp add: power_int_add)
    then have "(of_int \<bar>n\<bar> :: rat) = 2 powi 53" by (simp add: absx)
    then have "(of_int \<bar>n\<bar> :: rat) = of_int (2 ^ 53)" by simp
    then have "\<bar>n\<bar> = 2 ^ 53" by (simp only: of_int_eq_iff)
    then have "n = 2 ^ 53 \<or> n = - (2 ^ 53)" by (auto simp: abs_if split: if_splits)
    then have "even n" by auto
    then obtain m where m: "n = 2 * m" by (auto elim: evenE)
    from e have "e - 52 = k + 1" by simp
    then have "q = 2 powi (k + 1)" by (simp only: q_def)
    then have q: "q = 2 * 2 powi k" by (simp only: pow2_Suc)
    then have xq: "x = of_int m * q" by (simp add: x_def m)
    have "q \<noteq> 0" by (simp add: q_def)
    with xq have "x / q = of_int m" by simp
    then have "round_even (x / q) = m" by (simp only: round_even_int)
    with xq show ?thesis by simp
  qed
  have "(2::rat) powi (53 + k) < 2 powi 1024" using khi by (intro pow2_less) simp
  with xhi have "\<bar>x\<bar> < 2 powi 1024" by simp
  then have "\<not> 2 powi 1024 \<le> x" "\<not> x \<le> - (2 powi 1024)" by linarith+
  with exact x0 have "round_double x = Fin x"
    unfolding round_double_def Let_def e0_def [symmetric] e_def [symmetric] q_def [symmetric]
    by simp
  then show ?thesis by (simp add: x_def)
qed

lemma round_double_int:
  assumes "\<bar>n\<bar> \<le> 2 ^ 53"
  shows "round_double (of_int n) = Fin (of_int n)"
  using round_double_dyadic [OF assms, of 0] by simp

lemma round_double_half: "round_double (1 / 2) = Fin (1 / 2)"
  using round_double_dyadic [of 1 "- 1"] by (simp add: power_int_minus)

lemma round_double_2_53_1: "round_double (2 ^ 53 + 1) = Fin (2 ^ 53)"
proof -
  define x :: rat where "x = 2 ^ 53 + 1"
  have x0: "x \<noteq> 0" by (simp add: x_def)
  have "2 powi 53 \<le> \<bar>x\<bar>" "\<bar>x\<bar> < 2 powi 54" by (simp_all add: x_def)
  have e: "exponent x = 53"
  proof -
    from exponent_bounds [OF x0] \<open>2 powi 53 \<le> \<bar>x\<bar>\<close> \<open>\<bar>x\<bar> < 2 powi 54\<close>
    have "(2::rat) powi exponent x < 2 powi 54" "(2::rat) powi 53 < 2 powi (exponent x + 1)"
      by linarith+
    then have "exponent x < 54" "53 < exponent x + 1" by (blast dest: pow2_less_D)+
    then show ?thesis by simp
  qed
  have "\<lfloor>(9007199254740993::rat) / 2\<rfloor> = 4503599627370496" by (rule floor_unique) simp_all
  then have "round_even (x / 2) = 2 ^ 52"
    by (simp add: x_def round_even_def Let_def)
  with e x0 show ?thesis
    unfolding x_def [symmetric] by (simp add: round_double_def Let_def)
qed

lemma round_double_numeral:
  "numeral w \<le> (2 ^ 53 :: int) \<Longrightarrow> round_double (numeral w) = Fin (numeral w)"
  using round_double_int [of "numeral w"] by simp

lemma round_double_zero: "round_double 0 = Fin 0"
  by (simp add: round_double_def)


section \<open>The winner\<close>

text \<open>
  The order \<open><\<close> on numbers, \<open>Math.min\<close> and \<open>indexOf\<close>: without a \<open>NaN\<close>, the first position of
  the minimum is the first index of a least element.
\<close>

lemma js_lt_irrefl: "\<not> js_lt a a"
  by (cases a) simp_all

lemma js_lt_not_NaN: "js_lt a b \<Longrightarrow> a \<noteq> NaN \<and> b \<noteq> NaN"
  by (cases a; cases b) simp_all

lemma js_lt_trans: "js_lt a b \<Longrightarrow> js_lt b c \<Longrightarrow> js_lt a c"
  by (cases a; cases b; cases c) simp_all

lemma js_lt_total: "a \<noteq> NaN \<Longrightarrow> b \<noteq> NaN \<Longrightarrow> a \<noteq> b \<Longrightarrow> js_lt a b \<or> js_lt b a"
  by (cases a; cases b) auto

lemma js_le_trans:
  "b \<noteq> NaN \<Longrightarrow> \<not> js_lt b a \<Longrightarrow> \<not> js_lt c b \<Longrightarrow> \<not> js_lt c a"
  by (cases a; cases b; cases c) auto

lemma js_min2_cases:
  assumes "a \<noteq> NaN" "b \<noteq> NaN"
  shows "js_min2 a b \<noteq> NaN" "js_min2 a b = a \<or> js_min2 a b = b"
    "\<not> js_lt a (js_min2 a b)" "\<not> js_lt b (js_min2 a b)"
  using assms js_lt_irrefl [of a] js_lt_irrefl [of b] js_lt_trans [of a b a]
  by (auto simp: js_min2_def)

lemma min_fold:
  assumes "m \<noteq> NaN" "NaN \<notin> set ts"
  shows "fold (\<lambda>t m. js_min2 m t) ts m \<noteq> NaN \<and>
         fold (\<lambda>t m. js_min2 m t) ts m \<in> insert m (set ts) \<and>
         (\<forall>t \<in> insert m (set ts). \<not> js_lt t (fold (\<lambda>t m. js_min2 m t) ts m))"
  using assms
proof (induction ts arbitrary: m)
  case Nil
  then show ?case by (simp add: js_lt_irrefl)
next
  case (Cons t ts)
  let ?m = "js_min2 m t"
  let ?r = "fold (\<lambda>t m. js_min2 m t) ts ?m"
  from Cons.prems have t: "t \<noteq> NaN" and ts: "NaN \<notin> set ts" by auto
  note m2 = js_min2_cases [OF Cons.prems(1) t]
  from Cons.IH [OF m2(1) ts] have r: "?r \<noteq> NaN" "?r \<in> insert ?m (set ts)"
    "\<forall>u \<in> insert ?m (set ts). \<not> js_lt u ?r" by simp_all
  from r(3) have rm: "\<not> js_lt ?m ?r" by simp
  from js_le_trans [OF m2(1) rm m2(3)] have "\<not> js_lt m ?r" .
  moreover from js_le_trans [OF m2(1) rm m2(4)] have "\<not> js_lt t ?r" .
  moreover from r(2) m2(2) have "?r \<in> insert m (set (t # ts))" by auto
  ultimately show ?case using r(1,3) by simp
qed

lemma Math_min_least:
  assumes "ts \<noteq> []" "NaN \<notin> set ts"
  shows "Math_min ts \<in> set ts" "Math_min ts \<noteq> NaN" "\<forall>t \<in> set ts. \<not> js_lt t (Math_min ts)"
proof -
  from min_fold [of Infinity ts] assms(2) have
    r: "Math_min ts \<noteq> NaN" "Math_min ts \<in> insert Infinity (set ts)"
      "\<forall>t \<in> insert Infinity (set ts). \<not> js_lt t (Math_min ts)"
    by (simp_all add: Math_min_def)
  show "Math_min ts \<in> set ts"
  proof (rule ccontr)
    assume n: "Math_min ts \<notin> set ts"
    with r(2) have inf: "Math_min ts = Infinity" by simp
    from assms(1) obtain t where t: "t \<in> set ts" by (cases ts) auto
    with n assms(2) inf have "t \<noteq> Infinity" "t \<noteq> NaN" by auto
    then have "js_lt t Infinity" by (cases t) simp_all
    with r(3) t inf show False by simp
  qed
  from r show "Math_min ts \<noteq> NaN" "\<forall>t \<in> set ts. \<not> js_lt t (Math_min ts)" by simp_all
qed

lemma index_from_first:
  "v \<in> set xs \<Longrightarrow>
   \<exists>i < length xs. index_from xs v k = k + int i \<and> xs ! i = v \<and> (\<forall>j < i. xs ! j \<noteq> v)"
proof (induction xs arbitrary: k)
  case Nil
  then show ?case by simp
next
  case (Cons x xs)
  show ?case
  proof (cases "x = v")
    case True
    then show ?thesis by (intro exI [of _ 0]) simp
  next
    case False
    with Cons.prems have "v \<in> set xs" by simp
    from Cons.IH [OF this, of "k + 1"] obtain i where
      i: "i < length xs" "index_from xs v (k + 1) = k + 1 + int i" "xs ! i = v"
        "\<forall>j < i. xs ! j \<noteq> v" by blast
    from False i show ?thesis
      by (intro exI [of _ "Suc i"]) (auto simp: nth_Cons' less_Suc_eq_0_disj)
  qed
qed

lemma index_from_absent: "v \<notin> set xs \<Longrightarrow> index_from xs v k = - 1"
  by (induction xs arbitrary: k) auto

lemma first_min:
  assumes "ts \<noteq> []" "NaN \<notin> set ts"
  shows "\<exists>i < length ts. indexOf_num ts (Math_min ts) = int i \<and> Math_min ts = ts ! i \<and>
           (\<forall>j < length ts. \<not> js_lt (ts ! j) (ts ! i)) \<and> (\<forall>j < i. js_lt (ts ! i) (ts ! j))"
proof -
  let ?m = "Math_min ts"
  note least = Math_min_least [OF assms]
  from index_from_first [OF least(1), of 0] obtain i where
    i: "i < length ts" "index_from ts ?m 0 = int i" "ts ! i = ?m" "\<forall>j < i. ts ! j \<noteq> ?m" by auto
  have le: "\<forall>j < length ts. \<not> js_lt (ts ! j) ?m" using least(3) by simp
  have "\<forall>j < i. js_lt ?m (ts ! j)"
  proof (intro allI impI)
    fix j assume j: "j < i"
    with i have ne: "ts ! j \<noteq> ?m" and jl: "j < length ts" by auto
    from jl assms(2) have "ts ! j \<noteq> NaN" by (metis nth_mem)
    from js_lt_total [OF least(2) this] ne le jl show "js_lt ?m (ts ! j)" by auto
  qed
  with i le least(2) show ?thesis
    by (intro exI [of _ i]) (simp add: indexOf_num_def indexOf_def)
qed

lemma Math_min_NaN: "NaN \<in> set ts \<Longrightarrow> Math_min ts = NaN"
proof -
  have stays: "fold (\<lambda>t m. js_min2 m t) ts NaN = NaN" for ts
    by (induction ts) (simp_all add: js_min2_def)
  have "NaN \<in> set ts \<Longrightarrow> fold (\<lambda>t m. js_min2 m t) ts m = NaN" for m
  proof (induction ts arbitrary: m)
    case Nil
    then show ?case by simp
  next
    case (Cons t ts)
    show ?case
    proof (cases "t = NaN")
      case True
      then have "js_min2 m t = NaN" by (simp add: js_min2_def)
      then show ?thesis by (simp add: stays)
    next
      case False
      with Cons.prems have "NaN \<in> set ts" by simp
      from Cons.IH [OF this] show ?thesis by simp
    qed
  qed
  then show "NaN \<in> set ts \<Longrightarrow> Math_min ts = NaN" by (simp add: Math_min_def)
qed

lemma int_fold_exact:
  "\<bar>a\<bar> + abs_sum ks \<le> 2 ^ 53 \<Longrightarrow>
   foldl (\<lambda>sum c. case c of Hole \<Rightarrow> sum | Null \<Rightarrow> js_add sum (Fin 0) | Num n \<Rightarrow> js_add sum n)
     (Fin (of_int a)) (int_row ks) = Fin (of_int (a + int_sum ks))"
proof (induction ks arbitrary: a)
  case Nil
  show ?case by (simp add: int_row_def int_sum_def)
next
  case (Cons k ks)
  have nonneg: "0 \<le> abs_sum ks"
    unfolding abs_sum_def by (rule sum_list_nonneg) (auto split: option.splits)
  show ?case
  proof (cases k)
    case None
    with Cons.prems nonneg have a: "\<bar>a\<bar> \<le> 2 ^ 53" and rest: "\<bar>a\<bar> + abs_sum ks \<le> 2 ^ 53"
      by (simp_all add: abs_sum_def)
    from round_double_int [OF a] have "js_add (Fin (of_int a)) (Fin 0) = Fin (of_int a)" by simp
    with Cons.IH [OF rest] None show ?thesis by (simp add: int_row_def int_sum_def)
  next
    case (Some n)
    with Cons.prems have "\<bar>a + n\<bar> + abs_sum ks \<le> 2 ^ 53" by (simp add: abs_sum_def)
    from Cons.IH [OF this] have
      "foldl (\<lambda>sum c. case c of Hole \<Rightarrow> sum | Null \<Rightarrow> js_add sum (Fin 0) | Num n \<Rightarrow> js_add sum n)
         (Fin (of_int (a + n))) (int_row ks) = Fin (of_int (a + n + int_sum ks))" .
    moreover from \<open>\<bar>a + n\<bar> + abs_sum ks \<le> 2 ^ 53\<close> nonneg have "\<bar>a + n\<bar> \<le> 2 ^ 53" by simp
    from round_double_int [OF this] have "js_add (Fin (of_int a)) (Fin (of_int n)) = Fin (of_int (a + n))"
      by simp
    ultimately show ?thesis using Some by (simp add: int_row_def int_sum_def add.assoc)
  qed
qed

lemma row_total_exact:
  "abs_sum ks \<le> 2 ^ 53 \<Longrightarrow> row_total (int_row ks) = Fin (of_int (int_sum ks))"
  using int_fold_exact [of 0 ks] by (simp add: row_total_def)

lemma round_double_2_53_plus_1: "round_double 9007199254740993 = Fin 9007199254740992"
  using round_double_2_53_1 by simp

lemma map_throw_all: "(\<forall>x \<in> set xs. f x = Inr (h x)) \<Longrightarrow> map_throw f xs = Inr (map h xs)"
  by (induction xs) simp_all

lemma getAllTotals_rows:
  assumes "length (players g) \<le> length (scores g)"
  shows "getAllTotals g = Inr (map (\<lambda>i. row_total (scores g ! i)) [0..<length (players g)])"
  unfolding getAllTotals_def
  using assms by (intro map_throw_all) (simp add: getPlayerTotal_def)

lemma alice_bob_done_totals:
  "row_total (scores alice_bob_done ! 0) = Fin 55" "row_total (scores alice_bob_done ! 1) = Fin 55"
proof -
  have "scores alice_bob_done ! 0 = int_row (replicate 11 (Some 5))"
    by (simp add: alice_bob_done_def int_row_def)
  moreover have "abs_sum (replicate 11 (Some 5)) \<le> 2 ^ 53" "int_sum (replicate 11 (Some 5)) = 55"
    by (simp_all add: abs_sum_def int_sum_def sum_list_replicate)
  ultimately show "row_total (scores alice_bob_done ! 0) = Fin 55"
    by (simp add: row_total_exact)
  have "scores alice_bob_done ! 1 = int_row (replicate 10 (Some 4) @ [Some 15])"
    by (simp add: alice_bob_done_def int_row_def)
  moreover have "abs_sum (replicate 10 (Some 4) @ [Some 15]) \<le> 2 ^ 53"
    "int_sum (replicate 10 (Some 4) @ [Some 15]) = 55"
    by (simp_all add: abs_sum_def int_sum_def sum_list_replicate)
  ultimately show "row_total (scores alice_bob_done ! 1) = Fin 55"
    by (simp add: row_total_exact)
qed

lemma fold_zeros:
  "round_double x = Fin x \<Longrightarrow>
   foldl (\<lambda>sum c. case c of Hole \<Rightarrow> sum | Null \<Rightarrow> js_add sum (Fin 0) | Num n \<Rightarrow> js_add sum n)
     (Fin x) (replicate n (Num (Fin 0))) = Fin x"
  by (induction n) simp_all

lemma round_double_2_53: "round_double (2 ^ 53) = Fin (2 ^ 53)"
  using round_double_int [of "2 ^ 53"] by simp

lemma big_done_totals:
  "row_total (scores big_done ! 0) = Fin (2 ^ 53)" "row_total (scores big_done ! 1) = Fin (2 ^ 53)"
proof -
  have a: "js_add (Fin 0) (Fin (2 ^ 53)) = Fin (2 ^ 53)"
    using round_double_2_53 by simp
  have b: "js_add (Fin (2 ^ 53)) (Fin 1) = Fin (2 ^ 53)"
    using round_double_2_53_1 by simp
  have "row_total (Num (Fin (2 ^ 53)) # Num (Fin 1) # replicate 9 (Num (Fin 0))) = Fin (2 ^ 53)"
    unfolding row_total_def foldl_Cons cell.case a b
    by (rule fold_zeros) (rule round_double_2_53)
  then show "row_total (scores big_done ! 0) = Fin (2 ^ 53)" by (simp add: big_done_def)
  have "row_total (Num (Fin (2 ^ 53)) # replicate 10 (Num (Fin 0))) = Fin (2 ^ 53)"
    unfolding row_total_def foldl_Cons cell.case a
    by (rule fold_zeros) (rule round_double_2_53)
  then show "row_total (scores big_done ! 1) = Fin (2 ^ 53)" by (simp add: big_done_def)
qed

text \<open>
  C1 (as amended). \<open>getWinner\<close> returns \<open>null\<close> unless the game is complete
  (\<open>currentRound > maxRounds\<close>). For a complete game with at least one player, a score row for
  every player and no total that is \<open>NaN\<close>, it returns a player \<open>i\<close> whose total is not above
  the total of any player and strictly below the total of every player before \<open>i\<close> (so ties
  go to the lowest index), together with that player's name, that total and the index \<open>i\<close>.
  The total of a player is what \<open>getPlayerTotal\<close> returns: the floating-point sum of the row
  from left to right, a \<open>null\<close> cell counting zero. For a row of integer scores whose
  magnitudes add up to at most \<open>2^53\<close> it is the exact sum.
\<close>

theorem getWinner_spec:
  "(currentRound g \<le> maxRounds \<longrightarrow> getWinner g = Inr None) \<and>
   (currentRound g > maxRounds \<and> players g \<noteq> [] \<and> length (players g) \<le> length (scores g) \<and>
    (\<forall>i < length (players g). row_total (scores g ! i) \<noteq> NaN) \<longrightarrow>
      (\<exists>i < length (players g).
         getWinner g = Inr (Some \<lparr>name = Some (players g ! i),
                                  score = row_total (scores g ! i),
                                  index = int i\<rparr>) \<and>
         (\<forall>j < length (players g).
            \<not> js_lt (row_total (scores g ! j)) (row_total (scores g ! i))) \<and>
         (\<forall>j < i. js_lt (row_total (scores g ! i)) (row_total (scores g ! j))))) \<and>
   (\<forall>i < length (scores g). getPlayerTotal g i = Inr (row_total (scores g ! i))) \<and>
   (abs_sum ks \<le> 2 ^ 53 \<longrightarrow> row_total (int_row ks) = Fin (of_int (int_sum ks)))"
proof (intro conjI)
  show "currentRound g \<le> maxRounds \<longrightarrow> getWinner g = Inr None"
    by (simp add: getWinner_def isGameComplete_def)
  show "\<forall>i < length (scores g). getPlayerTotal g i = Inr (row_total (scores g ! i))"
    by (simp add: getPlayerTotal_def)
  show "abs_sum ks \<le> 2 ^ 53 \<longrightarrow> row_total (int_row ks) = Fin (of_int (int_sum ks))"
    by (simp add: row_total_exact)
  show "currentRound g > maxRounds \<and> players g \<noteq> [] \<and> length (players g) \<le> length (scores g) \<and>
    (\<forall>i < length (players g). row_total (scores g ! i) \<noteq> NaN) \<longrightarrow>
      (\<exists>i < length (players g).
         getWinner g = Inr (Some \<lparr>name = Some (players g ! i),
                                  score = row_total (scores g ! i),
                                  index = int i\<rparr>) \<and>
         (\<forall>j < length (players g).
            \<not> js_lt (row_total (scores g ! j)) (row_total (scores g ! i))) \<and>
         (\<forall>j < i. js_lt (row_total (scores g ! i)) (row_total (scores g ! j))))"
  proof
    assume h: "currentRound g > maxRounds \<and> players g \<noteq> [] \<and>
      length (players g) \<le> length (scores g) \<and>
      (\<forall>i < length (players g). row_total (scores g ! i) \<noteq> NaN)"
    let ?ts = "map (\<lambda>i. row_total (scores g ! i)) [0..<length (players g)]"
    from h have tot: "getAllTotals g = Inr ?ts" by (simp add: getAllTotals_rows)
    from h have ne: "?ts \<noteq> []" by simp
    from h have nn: "NaN \<notin> set ?ts" by auto
    from first_min [OF ne nn] obtain i where
      i: "i < length ?ts" "indexOf_num ?ts (Math_min ?ts) = int i" "Math_min ?ts = ?ts ! i"
        "\<forall>j < length ?ts. \<not> js_lt (?ts ! j) (?ts ! i)" "\<forall>j < i. js_lt (?ts ! i) (?ts ! j)"
      by blast
    from i(1) have il: "i < length (players g)" by simp
    from h tot i(2,3) il have "getWinner g = Inr (Some \<lparr>name = Some (players g ! i),
                                  score = row_total (scores g ! i),
                                  index = int i\<rparr>)"
      by (simp add: getWinner_def isGameComplete_def Let_def js_nth_def)
    moreover from i(4) il have "\<forall>j < length (players g).
            \<not> js_lt (row_total (scores g ! j)) (row_total (scores g ! i))"
      by simp
    moreover from i(5) il have "\<forall>j < i. js_lt (row_total (scores g ! i)) (row_total (scores g ! j))"
      by simp
    ultimately show "\<exists>i < length (players g).
         getWinner g = Inr (Some \<lparr>name = Some (players g ! i),
                                  score = row_total (scores g ! i),
                                  index = int i\<rparr>) \<and>
         (\<forall>j < length (players g).
            \<not> js_lt (row_total (scores g ! j)) (row_total (scores g ! i))) \<and>
         (\<forall>j < i. js_lt (row_total (scores g ! i)) (row_total (scores g ! j)))"
      using il by blast
  qed
qed

lemma tie_goes_first:
  assumes i: "i < 2" and first: "\<forall>j < i. js_lt (t i) (t j)" and eq: "t 0 = t (1::nat)"
  shows "i = 0"
proof (rule ccontr)
  assume "i \<noteq> 0"
  with i have "i = 1" by simp
  with first have "js_lt (t 1) (t 0)" by simp
  with eq show False by (simp add: js_lt_irrefl)
qed

theorem getWinner_spec_witness:
  "currentRound alice_bob \<le> maxRounds \<and> getWinner alice_bob = Inr None \<and>
   currentRound alice_bob_done > maxRounds \<and> players alice_bob_done \<noteq> [] \<and>
   length (players alice_bob_done) \<le> length (scores alice_bob_done) \<and>
   row_total (scores alice_bob_done ! 0) = Fin 55 \<and> row_total (scores alice_bob_done ! 1) = Fin 55 \<and>
   getWinner alice_bob_done = Inr (Some \<lparr>name = Some ''Alice'', score = Fin 55, index = 0\<rparr>) \<and>
   row_total (scores big_done ! 0) = Fin (2 ^ 53) \<and> row_total (scores big_done ! 1) = Fin (2 ^ 53) \<and>
   getWinner big_done = Inr (Some \<lparr>name = Some ''Alice'', score = Fin (2 ^ 53), index = 0\<rparr>)"
proof -
  have a: "currentRound alice_bob \<le> maxRounds" by (simp add: alice_bob_def maxRounds_def)
  with getWinner_spec [of alice_bob] have b: "getWinner alice_bob = Inr None" by blast
  note t = alice_bob_done_totals
  have c: "currentRound alice_bob_done > maxRounds \<and> players alice_bob_done \<noteq> [] \<and>
     length (players alice_bob_done) \<le> length (scores alice_bob_done)"
    by (simp add: alice_bob_done_def maxRounds_def)
  have l: "length (players alice_bob_done) = 2" by (simp add: alice_bob_done_def)
  have n: "\<forall>i < length (players alice_bob_done). row_total (scores alice_bob_done ! i) \<noteq> NaN"
    using t by (simp add: l All_less_Suc numeral_2_eq_2)
  from getWinner_spec [of alice_bob_done] c n obtain i where
    i: "i < length (players alice_bob_done)" and
    w: "getWinner alice_bob_done =
          Inr (Some \<lparr>name = Some (players alice_bob_done ! i),
                     score = row_total (scores alice_bob_done ! i),
                     index = int i\<rparr>)" and
    first: "\<forall>j < i. js_lt (row_total (scores alice_bob_done ! i))
                         (row_total (scores alice_bob_done ! j))"
    by blast
  from i l first t have "i = 0"
    by (intro tie_goes_first [of i "\<lambda>i. row_total (scores alice_bob_done ! i)"]) simp_all
  with w t have d: "getWinner alice_bob_done =
      Inr (Some \<lparr>name = Some ''Alice'', score = Fin 55, index = 0\<rparr>)"
    by (simp add: alice_bob_done_def)
  note tb = big_done_totals
  have cb: "currentRound big_done > maxRounds \<and> players big_done \<noteq> [] \<and>
     length (players big_done) \<le> length (scores big_done)"
    by (simp add: big_done_def maxRounds_def)
  have lb: "length (players big_done) = 2" by (simp add: big_done_def)
  have nb: "\<forall>i < length (players big_done). row_total (scores big_done ! i) \<noteq> NaN"
    using tb by (simp add: lb All_less_Suc numeral_2_eq_2)
  from getWinner_spec [of big_done] cb nb obtain k where
    k: "k < length (players big_done)" and
    wb: "getWinner big_done =
          Inr (Some \<lparr>name = Some (players big_done ! k),
                     score = row_total (scores big_done ! k),
                     index = int k\<rparr>)" and
    firstb: "\<forall>j < k. js_lt (row_total (scores big_done ! k)) (row_total (scores big_done ! j))"
    by blast
  from k lb firstb tb have "k = 0"
    by (intro tie_goes_first [of k "\<lambda>i. row_total (scores big_done ! i)"]) simp_all
  with wb tb have e: "getWinner big_done =
      Inr (Some \<lparr>name = Some ''Alice'', score = Fin (2 ^ 53), index = 0\<rparr>)"
    by (simp add: big_done_def)
  from a b c t d tb e show ?thesis by blast
qed

lemma alice_bob_done_reachable: "reachable alice_bob_done"
proof -
  from p_started [OF r_new alice_bob_started] have "in_play alice_bob" .
  then have "in_play (submit_rounds alice_bob
      (replicate 10 [Some (Fin 5), Some (Fin 4)] @ [[Some (Fin 5), Some (Fin 15)]]))"
    by (rule in_play_rounds)
  then have "in_play alice_bob_done" by (simp only: alice_bob_played)
  then show ?thesis by (rule in_play_reachable)
qed

lemma nan_done_reachable: "reachable nan_done"
proof -
  from r_start [OF r_new, of "[''Alice'', ''Bob'']"] have "reachable alice_bob"
    by (simp add: alice_bob_started)
  then have "reachable (submit_rounds alice_bob
      ([Some NaN, Some (Fin 0)] # replicate 10 [Some (Fin 0), Some (Fin 0)]))"
    by (rule reachable_rounds)
  moreover have "submit_rounds alice_bob
      ([Some NaN, Some (Fin 0)] # replicate 10 [Some (Fin 0), Some (Fin 0)]) = nan_done"
    by (simp add: alice_bob_def nan_done_def submitRound_def maxRounds_def js_set_def
        isGameComplete_def numeral_eq_Suc)
  ultimately show ?thesis by simp
qed

lemma carol_added_reachable: "reachable carol_added"
proof -
  have "snd (addPlayer alice_bob_done ''Carol'') = carol_added"
    by (simp add: addPlayer_def alice_bob_done_def carol_added_def trim_def is_space_def)
  with r_add [OF alice_bob_done_reachable, of "''Carol''"] show ?thesis by simp
qed

text \<open>
  C1 as first stated fails in three complete games that the operations of the class reach.
  Without players (eleven calls \<open>submitRound([])\<close> on a new game) \<open>Math.min()\<close> is \<open>Infinity\<close>,
  \<open>indexOf\<close> gives -1, and the object returned names no player. With a player added after the
  game was started there is no score row for that player, and \<open>getPlayerTotal\<close> raises. With a
  score \<open>NaN\<close> the least total is \<open>NaN\<close>, which \<open>indexOf\<close> never finds, and again the object
  returned names no player.
\<close>

theorem getWinner_fails:
  "reachable nobody_done \<and> currentRound nobody_done > maxRounds \<and>
   getWinner nobody_done = Inr (Some \<lparr>name = None, score = Infinity, index = - 1\<rparr>) \<and>
   reachable carol_added \<and> currentRound carol_added > maxRounds \<and>
   players carol_added \<noteq> [] \<and> getWinner carol_added = Inl TypeError \<and>
   reachable nan_done \<and> currentRound nan_done > maxRounds \<and> players nan_done \<noteq> [] \<and>
   length (players nan_done) = length (scores nan_done) \<and>
   getWinner nan_done = Inr (Some \<lparr>name = None, score = NaN, index = - 1\<rparr>)"
proof -
  from reachable_rounds [OF r_new, of "replicate 11 []"] have "reachable nobody_done"
    by (simp only: nobody_played)
  moreover have "currentRound nobody_done > maxRounds \<and>
      getWinner nobody_done = Inr (Some \<lparr>name = None, score = Infinity, index = - 1\<rparr>)"
    by (simp add: nobody_done_def maxRounds_def getWinner_def isGameComplete_def getAllTotals_def
        Math_min_def indexOf_num_def indexOf_def js_nth_def)
  moreover have "currentRound carol_added > maxRounds \<and> players carol_added \<noteq> [] \<and>
      getWinner carol_added = Inl TypeError"
    by (simp add: carol_added_def maxRounds_def getWinner_def isGameComplete_def getAllTotals_def
        getPlayerTotal_def upt_rec [of 0] upt_rec [of 1] upt_rec [of 2])
  moreover have "row_total (Num NaN # replicate 10 (Num (Fin 0))) = NaN"
    by (simp add: row_total_def numeral_eq_Suc)
  then have "currentRound nan_done > maxRounds \<and> players nan_done \<noteq> [] \<and>
      length (players nan_done) = length (scores nan_done) \<and>
      getWinner nan_done = Inr (Some \<lparr>name = None, score = NaN, index = - 1\<rparr>)"
    by (simp add: nan_done_def maxRounds_def getWinner_def isGameComplete_def getAllTotals_def
        getPlayerTotal_def upt_rec [of 0] upt_rec [of 1] Math_min_def js_min2_def
        indexOf_num_def js_nth_def)
  ultimately show ?thesis using carol_added_reachable nan_done_reachable by blast
qed

lemma determineWinner_totals:
  "determineWinner g =
     \<lparr>name = js_nth (players g) (indexOf_num (map row_total (scores g))
                                   (Math_min (map row_total (scores g)))),
      score = Math_min (map row_total (scores g)),
      index = indexOf_num (map row_total (scores g)) (Math_min (map row_total (scores g)))\<rparr>"
proof -
  have "(\<lambda>playerScores. foldl (\<lambda>sum c. case c of Hole \<Rightarrow> sum | Null \<Rightarrow> js_add sum (Fin 0)
                                      | Num n \<Rightarrow> js_add sum n) (Fin 0) playerScores) = row_total"
    by (rule ext) (simp add: row_total_def)
  then show ?thesis by (simp add: determineWinner_def Let_def)
qed

lemma totals_by_index:
  "length (scores g) = length (players g) \<Longrightarrow>
   map (\<lambda>i. row_total (scores g ! i)) [0..<length (players g)] = map row_total (scores g)"
  by (rule nth_equalityI) simp_all

lemma winners_equal:
  assumes fin: "currentRound g > maxRounds" and rows: "length (scores g) = length (players g)"
  shows "getWinner g = Inr (Some (determineWinner g))"
proof -
  from rows have "getAllTotals g = Inr (map row_total (scores g))"
    by (simp add: getAllTotals_rows totals_by_index)
  with fin show ?thesis
    by (simp add: getWinner_def isGameComplete_def determineWinner_totals Let_def)
qed

lemma saveGame_ok:
  "scores g \<noteq> [] \<Longrightarrow>
   \<exists>r. saveGame h g a d b = (Inr r, take MAX_HISTORY (r # h)) \<and> id_rec r = a \<and> date r = d \<and>
       timestamp r = b \<and> players_rec r = players g \<and> scores_rec r = scores g \<and>
       winner_rec r = determineWinner g"
  by (cases "scores g") (simp_all add: saveGame_def Let_def)

text \<open>
  C5. For a completed game with a non-empty roster and as many score rows as players, the
  winner that the statistics derive with \<open>determineWinner\<close>, and that \<open>saveGame\<close> stores in the
  record it creates, is the winner that \<open>getWinner\<close> returns: the same name, score and index.
  When no total is \<open>NaN\<close> it is a player whose total (the floating-point sum of the row,
  \<open>null\<close> cells counting zero) is not above any other, the one with the lowest index among
  several.
\<close>

theorem winners_agree:
  "currentRound g > maxRounds \<and> players g \<noteq> [] \<and> length (scores g) = length (players g) \<longrightarrow>
     getWinner g = Inr (Some (determineWinner g)) \<and>
     (\<exists>r. saveGame h g a d b = (Inr r, take MAX_HISTORY (r # h)) \<and>
          getWinner g = Inr (Some (winner_rec r))) \<and>
     ((\<forall>i < length (players g). row_total (scores g ! i) \<noteq> NaN) \<longrightarrow>
      (\<exists>i < length (players g).
         determineWinner g = \<lparr>name = Some (players g ! i),
                              score = row_total (scores g ! i),
                              index = int i\<rparr> \<and>
         (\<forall>j < length (players g).
            \<not> js_lt (row_total (scores g ! j)) (row_total (scores g ! i))) \<and>
         (\<forall>j < i. js_lt (row_total (scores g ! i)) (row_total (scores g ! j)))))"
proof
  assume h: "currentRound g > maxRounds \<and> players g \<noteq> [] \<and> length (scores g) = length (players g)"
  then have eq: "getWinner g = Inr (Some (determineWinner g))" by (simp add: winners_equal)
  from h have "scores g \<noteq> []" by auto
  from saveGame_ok [OF this, of h a d b] eq
  have sv: "\<exists>r. saveGame h g a d b = (Inr r, take MAX_HISTORY (r # h)) \<and>
          getWinner g = Inr (Some (winner_rec r))" by auto
  have rule: "(\<forall>i < length (players g). row_total (scores g ! i) \<noteq> NaN) \<longrightarrow>
      (\<exists>i < length (players g).
         determineWinner g = \<lparr>name = Some (players g ! i),
                              score = row_total (scores g ! i),
                              index = int i\<rparr> \<and>
         (\<forall>j < length (players g).
            \<not> js_lt (row_total (scores g ! j)) (row_total (scores g ! i))) \<and>
         (\<forall>j < i. js_lt (row_total (scores g ! i)) (row_total (scores g ! j))))"
  proof
    assume nn: "\<forall>i < length (players g). row_total (scores g ! i) \<noteq> NaN"
    let ?ts = "map row_total (scores g)"
    from h have ne: "?ts \<noteq> []" by auto
    have "NaN \<notin> set ?ts"
    proof
      assume "NaN \<in> set ?ts"
      then obtain i where "i < length ?ts" "?ts ! i = NaN" by (auto simp: in_set_conv_nth)
      with nn h show False by simp
    qed
    from first_min [OF ne this] obtain i where
      i: "i < length ?ts" "indexOf_num ?ts (Math_min ?ts) = int i" "Math_min ?ts = ?ts ! i"
        "\<forall>j < length ?ts. \<not> js_lt (?ts ! j) (?ts ! i)" "\<forall>j < i. js_lt (?ts ! i) (?ts ! j)"
      by blast
    from i(1) h have il: "i < length (players g)" by simp
    from i(2,3) il h have "determineWinner g = \<lparr>name = Some (players g ! i),
                              score = row_total (scores g ! i),
                              index = int i\<rparr>"
      by (simp add: determineWinner_totals js_nth_def)
    moreover from i(4) il h have "\<forall>j < length (players g).
            \<not> js_lt (row_total (scores g ! j)) (row_total (scores g ! i))"
      by simp
    moreover from i(5) il h have "\<forall>j < i. js_lt (row_total (scores g ! i)) (row_total (scores g ! j))"
      by simp
    ultimately show "\<exists>i < length (players g).
         determineWinner g = \<lparr>name = Some (players g ! i),
                              score = row_total (scores g ! i),
                              index = int i\<rparr> \<and>
         (\<forall>j < length (players g).
            \<not> js_lt (row_total (scores g ! j)) (row_total (scores g ! i))) \<and>
         (\<forall>j < i. js_lt (row_total (scores g ! i)) (row_total (scores g ! j)))"
      using il by blast
  qed
  from eq sv rule show "getWinner g = Inr (Some (determineWinner g)) \<and>
     (\<exists>r. saveGame h g a d b = (Inr r, take MAX_HISTORY (r # h)) \<and>
          getWinner g = Inr (Some (winner_rec r))) \<and>
     ((\<forall>i < length (players g). row_total (scores g ! i) \<noteq> NaN) \<longrightarrow>
      (\<exists>i < length (players g).
         determineWinner g = \<lparr>name = Some (players g ! i),
                              score = row_total (scores g ! i),
                              index = int i\<rparr> \<and>
         (\<forall>j < length (players g).
            \<not> js_lt (row_total (scores g ! j)) (row_total (scores g ! i))) \<and>
         (\<forall>j < i. js_lt (row_total (scores g ! i)) (row_total (scores g ! j)))))"
    by blast
qed

theorem winners_agree_witness:
  "currentRound big_done > maxRounds \<and> players big_done \<noteq> [] \<and>
   length (scores big_done) = length (players big_done) \<and>
   row_total (scores big_done ! 0) = Fin (2 ^ 53) \<and> row_total (scores big_done ! 1) = Fin (2 ^ 53) \<and>
   getWinner big_done = Inr (Some (determineWinner big_done)) \<and>
   determineWinner big_done = \<lparr>name = Some ''Alice'', score = Fin (2 ^ 53), index = 0\<rparr> \<and>
   currentRound nan_done > maxRounds \<and> players nan_done \<noteq> [] \<and>
   length (scores nan_done) = length (players nan_done) \<and>
   getWinner nan_done = Inr (Some (determineWinner nan_done))"
proof -
  note tb = big_done_totals
  have c: "currentRound big_done > maxRounds \<and> players big_done \<noteq> [] \<and>
     length (scores big_done) = length (players big_done)"
    by (simp add: big_done_def maxRounds_def)
  have l: "length (players big_done) = 2" by (simp add: big_done_def)
  have n: "\<forall>i < length (players big_done). row_total (scores big_done ! i) \<noteq> NaN"
    using tb by (simp add: l All_less_Suc numeral_2_eq_2)
  note w = winners_agree [of big_done "[]" 0 "[]" 0]
  from w c have e: "getWinner big_done = Inr (Some (determineWinner big_done))" by blast
  from w c n obtain i where
    i: "i < length (players big_done)" and
    d: "determineWinner big_done = \<lparr>name = Some (players big_done ! i),
                              score = row_total (scores big_done ! i),
                              index = int i\<rparr>" and
    first: "\<forall>j < i. js_lt (row_total (scores big_done ! i)) (row_total (scores big_done ! j))"
    by blast
  from i l first tb have "i = 0"
    by (intro tie_goes_first [of i "\<lambda>i. row_total (scores big_done ! i)"]) simp_all
  with d tb have f: "determineWinner big_done =
      \<lparr>name = Some ''Alice'', score = Fin (2 ^ 53), index = 0\<rparr>"
    by (simp add: big_done_def)
  have cn: "currentRound nan_done > maxRounds \<and> players nan_done \<noteq> [] \<and>
     length (scores nan_done) = length (players nan_done)"
    by (simp add: nan_done_def maxRounds_def)
  with winners_agree [of nan_done "[]" 0 "[]" 0]
  have g: "getWinner nan_done = Inr (Some (determineWinner nan_done))" by blast
  from c tb e f cn g show ?thesis by blast
qed


section \<open>The bounded history log\<close>

lemma importHistory_merged:
  assumes "fst (importHistory h p)"
  shows "\<exists>rs games merged. p = Records rs \<and>
           map id_rec games = map raw_id rs \<and> map timestamp games = map raw_timestamp rs \<and>
           map date games = map raw_date rs \<and> map totalRounds games = map raw_totalRounds rs \<and>
           map (\<lambda>g. Some (players_rec g)) games = map raw_players rs \<and>
           map (\<lambda>g. Some (scores_rec g)) games = map raw_scores rs \<and>
           map (\<lambda>g. Some (winner_rec g)) games = map raw_winner rs \<and>
           mset merged = mset h + mset (filter (\<lambda>g. id_rec g \<notin> id_rec ` set h) games) \<and>
           sorted_wrt (\<lambda>a b. timestamp a \<ge> timestamp b) merged \<and>
           (\<forall>t. filter (\<lambda>g. timestamp g = t) merged =
                filter (\<lambda>g. timestamp g = t)
                  (h @ filter (\<lambda>g. id_rec g \<notin> id_rec ` set h) games)) \<and>
           importHistory h p = (True, take 50 merged)"
proof -
  from assms obtain rs games where p: "p = Records rs" and
    run: "map_throw check_record rs = Inr games"
    by (auto simp: importHistory_def split: parsed.splits sum.splits)
  let ?new = "filter (\<lambda>g. id_rec g \<notin> id_rec ` set h) games"
  let ?merged = "js_sort (\<lambda>a b. timestamp b - timestamp a) (h @ ?new)"
  have m: "mset ?merged = mset h + mset ?new" by (simp add: mset_js_sort)
  have s: "sorted_wrt (\<lambda>a b. timestamp a \<ge> timestamp b) ?merged" by (rule sorted_js_sort)
  have st: "\<forall>t. filter (\<lambda>g. timestamp g = t) ?merged = filter (\<lambda>g. timestamp g = t) (h @ ?new)"
    by (intro allI stable_js_sort)
  from run p have r: "importHistory h p = (True, take 50 ?merged)"
    by (simp add: importHistory_def Let_def MAX_HISTORY_def)
  from map_throw_fields [OF run] p m s st r show ?thesis
    by (intro exI [of _ rs] exI [of _ games] exI [of _ ?merged]) simp
qed

lemma importHistory_failed: "\<not> fst (importHistory h p) \<Longrightarrow> importHistory h p = (False, h)"
  by (auto simp: importHistory_def Let_def split: parsed.splits sum.splits)

lemma take_append_take: "take n (xs @ take n ys) = take n (xs @ ys)"
  by (simp add: min_def)

lemma saveGame_fst: "fst (saveGame h g a d b) = fst (saveGame [] g a d b)"
  by (cases "scores g") (simp_all add: saveGame_def Let_def)

lemma save_games_closed:
  "\<forall>x \<in> set inputs. scores (fst x) \<noteq> [] \<Longrightarrow> length h \<le> MAX_HISTORY \<Longrightarrow>
   \<exists>rs. map Inr rs = map (\<lambda>(g, a, d, b). fst (saveGame [] g a d b)) inputs \<and>
        save_games h inputs = take MAX_HISTORY (rev rs @ h)"
proof (induction inputs arbitrary: h)
  case Nil
  then show ?case by simp
next
  case (Cons x inputs)
  obtain g a d b where x: "x = (g, a, d, b)" by (cases x) auto
  with Cons.prems have "scores g \<noteq> []" by simp
  from saveGame_ok [OF this, of h a d b] obtain r where
    r: "saveGame h g a d b = (Inr r, take MAX_HISTORY (r # h))" by blast
  then have "fst (saveGame h g a d b) = Inr r" by simp
  then have r0: "fst (saveGame [] g a d b) = Inr r" by (simp add: saveGame_fst [of h])
  from Cons.prems have "\<forall>x \<in> set inputs. scores (fst x) \<noteq> []" by simp
  moreover have "length (take MAX_HISTORY (r # h)) \<le> MAX_HISTORY" by simp
  ultimately obtain rs where
    rs: "map Inr rs = map (\<lambda>(g, a, d, b). fst (saveGame [] g a d b)) inputs"
      "save_games (take MAX_HISTORY (r # h)) inputs =
         take MAX_HISTORY (rev rs @ take MAX_HISTORY (r # h))"
    using Cons.IH [of "take MAX_HISTORY (r # h)"] by blast
  from rs(2) r x have "save_games h (x # inputs) = take MAX_HISTORY (rev (r # rs) @ h)"
    by (simp add: take_append_take)
  moreover from rs(1) r0 x have
    "map Inr (r # rs) = map (\<lambda>(g, a, d, b). fst (saveGame [] g a d b)) (x # inputs)" by simp
  ultimately show ?case by blast
qed

text \<open>
  C6 (as amended). The log never grows beyond 50 records. \<open>saveGame\<close> on a snapshot with at
  least one score row puts the new record in front and keeps the first 50, so that a log of
  at most 50 records has \<open>min (length + 1) 50\<close> records afterwards; on a snapshot without a
  score row it raises and the log stays as it is. \<open>importHistory\<close>, when it succeeds, leaves
  the first 50 records of the merged list (the old log and the imported records with a new
  \<open>id\<close>, in descending order of \<open>timestamp\<close>), and the old log when it fails; \<open>deleteGame\<close> and
  \<open>clearHistory\<close> only shorten the log. Saving 55 games into an empty log leaves exactly the
  records of the last 50, the most recent first.
\<close>

theorem history_cap:
  "(scores g \<noteq> [] \<longrightarrow>
      (\<exists>r. saveGame h g a d b = (Inr r, take 50 (r # h)) \<and> players_rec r = players g \<and>
           scores_rec r = scores g \<and> id_rec r = a \<and> timestamp r = b) \<and>
      (length h \<le> 50 \<longrightarrow> length (snd (saveGame h g a d b)) = min (length h + 1) 50)) \<and>
   (scores g = [] \<longrightarrow> saveGame h g a d b = (Inl TypeError, h)) \<and>
   (length h \<le> 50 \<longrightarrow>
      length (snd (saveGame h g a d b)) \<le> 50 \<and> length (snd (importHistory h p)) \<le> 50 \<and>
      length (deleteGame h k) \<le> 50 \<and> length (clearHistory h) \<le> 50) \<and>
   (\<not> fst (importHistory h p) \<longrightarrow> importHistory h p = (False, h)) \<and>
   (fst (importHistory h p) \<longrightarrow>
      (\<exists>rs games merged. p = Records rs \<and>
         map id_rec games = map raw_id rs \<and> map timestamp games = map raw_timestamp rs \<and>
         map date games = map raw_date rs \<and> map totalRounds games = map raw_totalRounds rs \<and>
         map (\<lambda>g. Some (players_rec g)) games = map raw_players rs \<and>
         map (\<lambda>g. Some (scores_rec g)) games = map raw_scores rs \<and>
         map (\<lambda>g. Some (winner_rec g)) games = map raw_winner rs \<and>
         mset merged = mset h + mset (filter (\<lambda>g. id_rec g \<notin> id_rec ` set h) games) \<and>
         sorted_wrt (\<lambda>a b. timestamp a \<ge> timestamp b) merged \<and>
         (\<forall>t. filter (\<lambda>g. timestamp g = t) merged =
              filter (\<lambda>g. timestamp g = t)
                (h @ filter (\<lambda>g. id_rec g \<notin> id_rec ` set h) games)) \<and>
         importHistory h p = (True, take 50 merged) \<and>
         length (snd (importHistory h p)) = min (length merged) 50)) \<and>
   (length inputs = 55 \<and> (\<forall>x \<in> set inputs. scores (fst x) \<noteq> []) \<longrightarrow>
      (\<exists>rs. map Inr rs = map (\<lambda>(g, a, d, b). fst (saveGame [] g a d b)) inputs \<and>
            save_games [] inputs = rev (drop 5 rs) \<and> length (save_games [] inputs) = 50))"
proof (intro conjI impI)
  assume "scores g \<noteq> []"
  from saveGame_ok [OF this, of h a d b]
  show "\<exists>r. saveGame h g a d b = (Inr r, take 50 (r # h)) \<and> players_rec r = players g \<and>
           scores_rec r = scores g \<and> id_rec r = a \<and> timestamp r = b"
    by (auto simp: MAX_HISTORY_def)
next
  assume "scores g \<noteq> []" and "length h \<le> 50"
  with saveGame_ok [of g h a d b]
  show "length (snd (saveGame h g a d b)) = min (length h + 1) 50"
    by (auto simp: MAX_HISTORY_def)
next
  assume "scores g = []"
  then show "saveGame h g a d b = (Inl TypeError, h)" by (simp add: saveGame_def)
next
  assume "length h \<le> 50"
  then show "length (snd (saveGame h g a d b)) \<le> 50"
    by (cases "scores g") (simp_all add: saveGame_def Let_def MAX_HISTORY_def)
next
  assume l: "length h \<le> 50"
  show "length (snd (importHistory h p)) \<le> 50"
  proof (cases "fst (importHistory h p)")
    case True
    from importHistory_merged [OF this] show ?thesis by auto
  next
    case False
    from importHistory_failed [OF this] l show ?thesis by simp
  qed
next
  assume "length h \<le> 50"
  moreover have "length (deleteGame h k) \<le> length h" by (simp add: deleteGame_def)
  ultimately show "length (deleteGame h k) \<le> 50" by simp
next
  show "length (clearHistory h) \<le> 50" by (simp add: clearHistory_def)
next
  assume "\<not> fst (importHistory h p)"
  then show "importHistory h p = (False, h)" by (rule importHistory_failed)
next
  assume "fst (importHistory h p)"
  from importHistory_merged [OF this] obtain rs games merged where
    m: "p = Records rs"
      "map id_rec games = map raw_id rs" "map timestamp games = map raw_timestamp rs"
      "map date games = map raw_date rs" "map totalRounds games = map raw_totalRounds rs"
      "map (\<lambda>g. Some (players_rec g)) games = map raw_players rs"
      "map (\<lambda>g. Some (scores_rec g)) games = map raw_scores rs"
      "map (\<lambda>g. Some (winner_rec g)) games = map raw_winner rs"
      "mset merged = mset h + mset (filter (\<lambda>g. id_rec g \<notin> id_rec ` set h) games)"
      "sorted_wrt (\<lambda>a b. timestamp a \<ge> timestamp b) merged"
      "\<forall>t. filter (\<lambda>g. timestamp g = t) merged =
           filter (\<lambda>g. timestamp g = t) (h @ filter (\<lambda>g. id_rec g \<notin> id_rec ` set h) games)"
      "importHistory h p = (True, take 50 merged)" by blast
  from m(12) have "length (snd (importHistory h p)) = min (length merged) 50" by simp
  with m show "\<exists>rs games merged. p = Records rs \<and>
         map id_rec games = map raw_id rs \<and> map timestamp games = map raw_timestamp rs \<and>
         map date games = map raw_date rs \<and> map totalRounds games = map raw_totalRounds rs \<and>
         map (\<lambda>g. Some (players_rec g)) games = map raw_players rs \<and>
         map (\<lambda>g. Some (scores_rec g)) games = map raw_scores rs \<and>
         map (\<lambda>g. Some (winner_rec g)) games = map raw_winner rs \<and>
         mset merged = mset h + mset (filter (\<lambda>g. id_rec g \<notin> id_rec ` set h) games) \<and>
         sorted_wrt (\<lambda>a b. timestamp a \<ge> timestamp b) merged \<and>
         (\<forall>t. filter (\<lambda>g. timestamp g = t) merged =
              filter (\<lambda>g. timestamp g = t)
                (h @ filter (\<lambda>g. id_rec g \<notin> id_rec ` set h) games)) \<and>
         importHistory h p = (True, take 50 merged) \<and>
         length (snd (importHistory h p)) = min (length merged) 50"
    by blast
next
  assume h: "length inputs = 55 \<and> (\<forall>x \<in> set inputs. scores (fst x) \<noteq> [])"
  then have "\<forall>x \<in> set inputs. scores (fst x) \<noteq> []" by simp
  from save_games_closed [OF this, of "[]"] obtain rs where
    rs: "map Inr rs = map (\<lambda>(g, a, d, b). fst (saveGame [] g a d b)) inputs"
      "save_games [] inputs = take MAX_HISTORY (rev rs)" by auto
  from rs(1) have "length (map Inr rs :: (error + game_record) list) = length inputs" by simp
  with h have len: "length rs = 55" by simp
  then have "take MAX_HISTORY (rev rs) = rev (drop 5 rs)"
    by (simp add: take_rev MAX_HISTORY_def)
  with rs len show "\<exists>rs. map Inr rs = map (\<lambda>(g, a, d, b). fst (saveGame [] g a d b)) inputs \<and>
            save_games [] inputs = rev (drop 5 rs) \<and> length (save_games [] inputs) = 50"
    by (intro exI [of _ rs]) simp
qed

theorem history_cap_witness:
  "scores alice_bob_done \<noteq> [] \<and> length ([] :: game_record list) \<le> 50 \<and>
   length (snd (saveGame [] alice_bob_done 7 [] 7)) = 1 \<and>
   \<not> fst (importHistory [] SyntaxError) \<and> importHistory [] SyntaxError = (False, []) \<and>
   scores nobody_done = [] \<and> saveGame [] nobody_done 7 [] 7 = (Inl TypeError, []) \<and>
   fst (importHistory [sample_record 1 [''Alice'', ''Bob''] ''Alice'']
         (Records [raw_of (sample_record 1 [''Alice'', ''Bob''] ''Alice''),
                   raw_of (sample_record 2 [''Alice'', ''Bob''] ''Bob'')])) \<and>
   snd (importHistory [sample_record 1 [''Alice'', ''Bob''] ''Alice'']
         (Records [raw_of (sample_record 1 [''Alice'', ''Bob''] ''Alice''),
                   raw_of (sample_record 2 [''Alice'', ''Bob''] ''Bob'')])) =
     [sample_record 2 [''Alice'', ''Bob''] ''Bob'', sample_record 1 [''Alice'', ''Bob''] ''Alice''] \<and>
   length fifty_five = 55 \<and>
   length (save_games [] fifty_five) = 50 \<and>
   map id_rec (save_games [] fifty_five) = rev (map int [5..<55])"
proof -
  let ?r1 = "sample_record 1 [''Alice'', ''Bob''] ''Alice''"
  let ?r2 = "sample_record 2 [''Alice'', ''Bob''] ''Bob''"
  let ?good = "Records [raw_of ?r1, raw_of ?r2]"
  have ne: "scores alice_bob_done \<noteq> []" by (simp add: alice_bob_done_def)
  have h55: "length fifty_five = 55 \<and> (\<forall>x \<in> set fifty_five. scores (fst x) \<noteq> [])"
    using ne by (auto simp: fifty_five_def)
  note cap = history_cap [of alice_bob_done "[]" 7 "[]" 7 SyntaxError 0 fifty_five]
  from cap ne have one: "length (snd (saveGame [] alice_bob_done 7 [] 7)) = 1" by simp
  have nf: "\<not> fst (importHistory [] SyntaxError)" by (simp add: importHistory_def)
  with cap have imp: "importHistory [] SyntaxError = (False, [])" by blast
  have empty: "scores nobody_done = []" by (simp add: nobody_done_def)
  with history_cap [of nobody_done "[]" 7 "[]" 7 SyntaxError 0 fifty_five]
  have raised: "saveGame [] nobody_done 7 [] 7 = (Inl TypeError, [])" by blast
  have sn: "snd (importHistory [?r1] ?good) = [?r2, ?r1]"
    by (simp add: importHistory_def check_record_def raw_of_def sample_record_def js_sort_def
        MAX_HISTORY_def Let_def)
  have ok: "fst (importHistory [?r1] ?good)"
    by (simp add: importHistory_def check_record_def raw_of_def Let_def)
  from history_cap [of alice_bob_done "[?r1]" 7 "[]" 7 ?good 0 fifty_five] ok
  obtain merged where "importHistory [?r1] ?good = (True, take 50 merged)" by blast
  from cap h55 obtain rs where
    rs: "map Inr rs = map (\<lambda>(g, a, d, b). fst (saveGame [] g a d b)) fifty_five" and
    sv: "save_games [] fifty_five = rev (drop 5 rs)" and
    l50: "length (save_games [] fifty_five) = 50" by blast
  from rs have "length (map Inr rs :: (error + game_record) list) = length fifty_five" by simp
  with h55 have lrs: "length rs = 55" by simp
  have "map id_rec rs = map int [0..<55]"
  proof (rule nth_equalityI)
    show "length (map id_rec rs) = length (map int [0..<55])" using lrs by simp
  next
    fix k assume "k < length (map id_rec rs)"
    with lrs have k: "k < 55" by simp
    from saveGame_ok [OF ne, of "[]" "int k" "''2025-01-01T00:00:00.000Z''" "int k"]
    obtain r where r: "fst (saveGame [] alice_bob_done (int k) ''2025-01-01T00:00:00.000Z'' (int k)) = Inr r"
      and rid: "id_rec r = int k" by auto
    from k lrs have "Inr (rs ! k) = (map Inr rs :: (error + game_record) list) ! k" by simp
    also from k have "\<dots> = fst (saveGame [] alice_bob_done (int k) ''2025-01-01T00:00:00.000Z'' (int k))"
      by (simp add: rs fifty_five_def)
    finally have "rs ! k = r" using r by simp
    with rid k lrs show "map id_rec rs ! k = map int [0..<55] ! k" by simp
  qed
  then have eq: "map id_rec rs = map int [0..<55]" .
  have d: "drop 5 [0..<55] = [5..<55]" using drop_upt [of 5 0 55] by (simp only: add_0)
  have "map id_rec (rev (drop 5 rs)) = rev (drop 5 (map id_rec rs))"
    by (simp only: rev_map drop_map)
  also have "\<dots> = rev (drop 5 (map int [0..<55]))" by (simp only: eq)
  also have "\<dots> = rev (map int [5..<55])" by (simp only: drop_map d)
  finally have "map id_rec (rev (drop 5 rs)) = rev (map int [5..<55])" .
  with sv have ids: "map id_rec (save_games [] fifty_five) = rev (map int [5..<55])" by simp
  from ne one nf imp empty raised ok sn h55 l50 ids show ?thesis by (simp del: upt_rec_numeral)
qed

text \<open>
  C6 as first stated fails for the complete game without players, whose score matrix has no
  row: \<open>saveGame\<close> reads \<open>scores[0].filter\<close>, raises, and the log has not grown by one.
\<close>

theorem saveGame_no_rows:
  "reachable nobody_done \<and> currentRound nobody_done > maxRounds \<and>
   length ([] :: game_record list) \<le> 50 \<and>
   saveGame [] nobody_done 7 [] 7 = (Inl TypeError, []) \<and>
   length (snd (saveGame [] nobody_done 7 [] 7)) \<noteq> min (length ([] :: game_record list) + 1) 50"
proof -
  from reachable_rounds [OF r_new, of "replicate 11 []"] have "reachable nobody_done"
    by (simp only: nobody_played)
  then show ?thesis by (simp add: nobody_done_def maxRounds_def saveGame_def)
qed


section \<open>Statistics of a player\<close>

lemma indexOf_member:
  "v \<in> set xs \<Longrightarrow> \<exists>i < length xs. indexOf xs v = int i \<and> xs ! i = v"
  using index_from_first [of v xs 0] by (auto simp: indexOf_def)

lemma toFixed1_near:
  assumes "\<bar>p\<bar> < 10 ^ 21"
  shows "\<exists>k::int. k = (if p < 0 then - \<lfloor>(- p) * 10 + 1 / 2\<rfloor> else \<lfloor>p * 10 + 1 / 2\<rfloor>) \<and>
           toFixed1 (Fin p) = round_double (of_int k / 10) \<and> \<bar>of_int k / 10 - p\<bar> \<le> 1 / 20"
proof (cases "p < 0")
  case True
  define r :: rat where "r = of_int \<lfloor>(- p) * 10 + 1 / 2\<rfloor>"
  have lo: "r \<le> (- p) * 10 + 1 / 2" unfolding r_def by (rule of_int_floor_le)
  have hi: "(- p) * 10 + 1 / 2 < r + 1"
    unfolding r_def using floor_correct [of "(- p) * 10 + 1 / 2"] by simp
  from True assms have "toFixed1 (Fin p) = round_double (- (r / 10))" by (simp add: r_def)
  moreover have "- (r / 10) = of_int (- \<lfloor>(- p) * 10 + 1 / 2\<rfloor>) / 10" by (simp add: r_def)
  moreover from lo hi have "\<bar>- (r / 10) - p\<bar> \<le> 1 / 20" by linarith
  ultimately have "toFixed1 (Fin p) = round_double (of_int (- \<lfloor>(- p) * 10 + 1 / 2\<rfloor>) / 10) \<and>
      \<bar>of_int (- \<lfloor>(- p) * 10 + 1 / 2\<rfloor>) / 10 - p\<bar> \<le> 1 / 20" by simp
  with True show ?thesis by simp
next
  case False
  define r :: rat where "r = of_int \<lfloor>p * 10 + 1 / 2\<rfloor>"
  have lo: "r \<le> p * 10 + 1 / 2" unfolding r_def by (rule of_int_floor_le)
  have hi: "p * 10 + 1 / 2 < r + 1"
    unfolding r_def using floor_correct [of "p * 10 + 1 / 2"] by simp
  from False assms have "toFixed1 (Fin p) = round_double (r / 10)" by (simp add: r_def)
  moreover from lo hi have "\<bar>r / 10 - p\<bar> \<le> 1 / 20" by linarith
  ultimately have "toFixed1 (Fin p) = round_double (of_int \<lfloor>p * 10 + 1 / 2\<rfloor> / 10) \<and>
      \<bar>of_int \<lfloor>p * 10 + 1 / 2\<rfloor> / 10 - p\<bar> \<le> 1 / 20" unfolding r_def by simp
  with False show ?thesis by simp
qed

lemma percent_near:
  assumes wt: "w \<le> t" and t0: "0 < t"
  shows "\<exists>p. js_mul (js_div (Fin (of_nat w)) (Fin (of_nat t))) (Fin 100) = Fin p \<and>
             \<bar>p - 100 * of_nat w / of_nat t\<bar> \<le> 2 powi (- 45) \<and> \<bar>p\<bar> \<le> 101"
proof -
  define x :: rat where "x = of_nat w / of_nat t"
  define u :: rat where "u = 2 powi (- 53)"
  define v :: rat where "v = 2 powi (- 46)"
  have u: "u \<le> 1 / 100" "100 * u \<le> v" and v: "2 * v \<le> 1" "2 * v = 2 powi (- 45)"
    by (simp_all add: u_def v_def power_int_minus)
  from wt t0 have x01: "0 \<le> x" "x \<le> 1" by (simp_all add: x_def)
  then have "\<bar>x\<bar> \<le> 2 powi 0" by simp
  from round_double_near [OF this] obtain a where
    a: "round_double x = Fin a" and "\<bar>a - x\<bar> \<le> 2 powi (0 - 53)" by auto
  then have ax: "\<bar>a - x\<bar> \<le> u" by (simp add: u_def)
  from ax u(1) x01 have "\<bar>a * 100\<bar> \<le> 101" by linarith
  then have "\<bar>a * 100\<bar> \<le> 2 powi 7" by simp
  from round_double_near [OF this] obtain p where
    p: "round_double (a * 100) = Fin p" and "\<bar>p - a * 100\<bar> \<le> 2 powi (7 - 53)" by auto
  then have pa: "\<bar>p - a * 100\<bar> \<le> v" by (simp add: v_def)
  from ax u(2) have "\<bar>a * 100 - x * 100\<bar> \<le> v" by linarith
  with pa have px: "\<bar>p - x * 100\<bar> \<le> 2 * v" by linarith
  with v(1) x01 have pb: "\<bar>p\<bar> \<le> 101" by linarith
  have "x * 100 = 100 * of_nat w / of_nat t" by (simp add: x_def)
  with px v(2) have near: "\<bar>p - 100 * of_nat w / of_nat t\<bar> \<le> 2 powi (- 45)" by simp
  from t0 a p have "js_mul (js_div (Fin (of_nat w)) (Fin (of_nat t))) (Fin 100) = Fin p"
    by (simp add: x_def)
  with near pb show ?thesis by blast
qed

lemma player_total_ok:
  assumes "nm \<in> set (players_rec game)"
    and "nat (indexOf (players_rec game) nm) < length (scores_rec game)"
  shows "\<exists>y. (let playerIndex = indexOf (players_rec game) nm in
               case js_nth (scores_rec game) playerIndex of
                 None \<Rightarrow> Inl TypeError
               | Some row \<Rightarrow>
                   Inr (foldl (\<lambda>sum c. case c of Hole \<Rightarrow> sum | Null \<Rightarrow> js_add sum (Fin 0)
                                         | Num n \<Rightarrow> js_add sum n) (Fin 0) row)) = Inr (y::jsnum)"
proof -
  from indexOf_member [OF assms(1)] obtain i where
    "i < length (players_rec game)" "indexOf (players_rec game) nm = int i" by blast
  with assms(2) show ?thesis by (simp add: js_nth_def Let_def)
qed

lemma player_total_raises:
  assumes "nm \<in> set (players_rec game)"
    and "\<not> nat (indexOf (players_rec game) nm) < length (scores_rec game)"
  shows "(let playerIndex = indexOf (players_rec game) nm in
               case js_nth (scores_rec game) playerIndex of
                 None \<Rightarrow> Inl TypeError
               | Some row \<Rightarrow>
                   Inr (foldl (\<lambda>sum c. case c of Hole \<Rightarrow> sum | Null \<Rightarrow> js_add sum (Fin 0)
                                         | Num n \<Rightarrow> js_add sum n) (Fin 0) row)) =
         (Inl TypeError :: error + jsnum)"
  using assms(2) by (simp add: js_nth_def Let_def)

lemma getPlayerStats_raises:
  assumes "\<exists>game \<in> set h. nm \<in> set (players_rec game) \<and>
             \<not> nat (indexOf (players_rec game) nm) < length (scores_rec game)"
  shows "getPlayerStats h nm = Inl TypeError"
proof -
  let ?pg = "filter (\<lambda>game. nm \<in> set (players_rec game)) h"
  let ?f = "\<lambda>game. let playerIndex = indexOf (players_rec game) nm in
               case js_nth (scores_rec game) playerIndex of
                 None \<Rightarrow> Inl TypeError
               | Some row \<Rightarrow>
                   Inr (foldl (\<lambda>sum c. case c of Hole \<Rightarrow> sum | Null \<Rightarrow> js_add sum (Fin 0)
                                         | Num n \<Rightarrow> js_add sum n) (Fin 0) row)"
  from assms obtain game where game: "game \<in> set h" "nm \<in> set (players_rec game)"
    "\<not> nat (indexOf (players_rec game) nm) < length (scores_rec game)" by blast
  then have ne: "length ?pg \<noteq> 0" by (auto simp: filter_empty_conv)
  from game have "game \<in> set ?pg" by simp
  moreover from player_total_raises [OF game(2,3)] have "?f game = Inl TypeError" .
  ultimately have "\<exists>x \<in> set ?pg. \<exists>e. ?f x = Inl e" by blast
  from map_throw_raises [OF this] obtain e where e: "map_throw ?f ?pg = Inl e" by blast
  have all: "\<And>xs e'. map_throw ?f xs = Inl e' \<Longrightarrow> e' = TypeError"
  proof -
    fix xs e' show "map_throw ?f xs = Inl e' \<Longrightarrow> e' = TypeError"
      by (induction xs) (auto simp: Let_def split: sum.splits option.splits)
  qed
  from all [OF e] e have "map_throw ?f ?pg = Inl TypeError" by simp
  with ne show ?thesis unfolding getPlayerStats_def Let_def by simp
qed

lemma getPlayerStats_found:
  assumes some: "\<exists>game \<in> set h. nm \<in> set (players_rec game)"
    and wf: "\<forall>game \<in> set h. nm \<in> set (players_rec game) \<longrightarrow>
               nat (indexOf (players_rec game) nm) < length (scores_rec game)"
  shows "\<exists>st. getPlayerStats h nm = Inr (Some st) \<and> playerName st = nm \<and>
           totalGames st = int (length (filter (\<lambda>game. nm \<in> set (players_rec game)) h)) \<and>
           wins st = int (length (filter (\<lambda>game. nm \<in> set (players_rec game) \<and>
                                            name (winner_rec game) = Some nm) h)) \<and>
           losses st = totalGames st - wins st \<and>
           winRate st =
             toFixed1 (js_mul
               (js_div
                 (Fin (of_nat (length (filter (\<lambda>game. nm \<in> set (players_rec game) \<and>
                                            name (winner_rec game) = Some nm) h))))
                 (Fin (of_nat (length (filter (\<lambda>game. nm \<in> set (players_rec game)) h)))))
               (Fin 100))"
proof -
  let ?pg = "filter (\<lambda>game. nm \<in> set (players_rec game)) h"
  let ?f = "\<lambda>game. let playerIndex = indexOf (players_rec game) nm in
               case js_nth (scores_rec game) playerIndex of
                 None \<Rightarrow> Inl TypeError
               | Some row \<Rightarrow>
                   Inr (foldl (\<lambda>sum c. case c of Hole \<Rightarrow> sum | Null \<Rightarrow> js_add sum (Fin 0)
                                         | Num n \<Rightarrow> js_add sum n) (Fin 0) row)"
  from some have ne: "length ?pg \<noteq> 0" by (auto simp: filter_empty_conv)
  have "\<forall>game \<in> set ?pg. \<exists>y. ?f game = Inr y"
  proof
    fix game assume "game \<in> set ?pg"
    with wf have "nm \<in> set (players_rec game)"
      "nat (indexOf (players_rec game) nm) < length (scores_rec game)" by simp_all
    then show "\<exists>y. ?f game = Inr y" by (rule player_total_ok)
  qed
  from map_throw_returns [OF this] obtain allScores where
    run: "map_throw ?f ?pg = Inr allScores" by blast
  have w: "filter (\<lambda>game. name (winner_rec game) = Some nm) ?pg =
           filter (\<lambda>game. nm \<in> set (players_rec game) \<and> name (winner_rec game) = Some nm) h"
    by simp
  from ne run show ?thesis
    unfolding getPlayerStats_def Let_def w by simp
qed

lemma two_of_four:
  "toFixed1 (js_mul (js_div (Fin (of_nat 2)) (Fin (of_nat 4))) (Fin 100)) = Fin 50"
proof -
  have "js_div (Fin (of_nat 2)) (Fin (of_nat 4)) = Fin (1 / 2)"
    using round_double_half by simp
  moreover have "js_mul (Fin (1 / 2)) (Fin 100) = Fin 50"
    using round_double_numeral [of "num.Bit0 (num.Bit1 (num.Bit0 (num.Bit0 (num.Bit1 num.One))))"]
    by simp
  moreover have "\<lfloor>(1001::rat) / 2\<rfloor> = 500" by (rule floor_unique) simp_all
  then have "toFixed1 (Fin 50) = Fin 50"
    using round_double_numeral [of "num.Bit0 (num.Bit1 (num.Bit0 (num.Bit0 (num.Bit1 num.One))))"]
    by simp
  ultimately show ?thesis by simp
qed

text \<open>
  C9 (as amended). \<open>getPlayerStats\<close> returns \<open>null\<close> when no record lists the name. When a
  record lists the name at a position for which it has no score row, \<open>getPlayerStats\<close> raises.
  Otherwise it returns the name, the number of records listing it as \<open>totalGames\<close>, the number
  of those whose stored winner name is the queried string as \<open>wins\<close>, and \<open>totalGames - wins\<close>
  as \<open>losses\<close>. The \<open>winRate\<close> is the double nearest to \<open>k / 10\<close>, where \<open>k\<close> is the nearest
  integer to ten times the computed percentage \<open>p\<close> (a half rounding away from zero), and \<open>p\<close>,
  the floating-point value of \<open>(wins / totalGames) * 100\<close>, is within \<open>2^-45\<close> of the exact
  percentage. For 2 wins in 4 games the \<open>winRate\<close> is exactly 50.
\<close>

theorem getPlayerStats_spec:
  "((\<forall>game \<in> set h. nm \<notin> set (players_rec game)) \<longrightarrow> getPlayerStats h nm = Inr None) \<and>
   ((\<exists>game \<in> set h. nm \<in> set (players_rec game) \<and>
        \<not> nat (indexOf (players_rec game) nm) < length (scores_rec game)) \<longrightarrow>
      getPlayerStats h nm = Inl TypeError) \<and>
   ((\<exists>game \<in> set h. nm \<in> set (players_rec game)) \<and>
    (\<forall>game \<in> set h. nm \<in> set (players_rec game) \<longrightarrow>
        nat (indexOf (players_rec game) nm) < length (scores_rec game)) \<longrightarrow>
      (\<exists>st. getPlayerStats h nm = Inr (Some st) \<and> playerName st = nm \<and>
         totalGames st = int (length (filter (\<lambda>game. nm \<in> set (players_rec game)) h)) \<and>
         wins st = int (length (filter (\<lambda>game. nm \<in> set (players_rec game) \<and>
                                          name (winner_rec game) = Some nm) h)) \<and>
         losses st = totalGames st - wins st \<and>
         (\<exists>p k r. js_mul (js_div (Fin (of_int (wins st))) (Fin (of_int (totalGames st)))) (Fin 100)
                    = Fin p \<and>
                  \<bar>p - 100 * of_int (wins st) / of_int (totalGames st)\<bar> \<le> 2 powi (- 45) \<and>
                  k = (if p < 0 then - \<lfloor>(- p) * 10 + 1 / 2\<rfloor> else \<lfloor>p * 10 + 1 / 2\<rfloor>) \<and>
                  \<bar>of_int k / 10 - p\<bar> \<le> 1 / 20 \<and>
                  winRate st = round_double (of_int k / 10) \<and>
                  winRate st = Fin r \<and> \<bar>r - of_int k / 10\<bar> \<le> 2 powi (- 46)) \<and>
         (totalGames st = 4 \<and> wins st = 2 \<longrightarrow> winRate st = Fin 50)))"
proof (intro conjI impI)
  assume "\<forall>game \<in> set h. nm \<notin> set (players_rec game)"
  then have "filter (\<lambda>game. nm \<in> set (players_rec game)) h = []" by (simp add: filter_empty_conv)
  then show "getPlayerStats h nm = Inr None" by (simp add: getPlayerStats_def)
next
  assume "\<exists>game \<in> set h. nm \<in> set (players_rec game) \<and>
        \<not> nat (indexOf (players_rec game) nm) < length (scores_rec game)"
  then show "getPlayerStats h nm = Inl TypeError" by (rule getPlayerStats_raises)
next
  assume "(\<exists>game \<in> set h. nm \<in> set (players_rec game)) \<and>
    (\<forall>game \<in> set h. nm \<in> set (players_rec game) \<longrightarrow>
        nat (indexOf (players_rec game) nm) < length (scores_rec game))"
  then have some: "\<exists>game \<in> set h. nm \<in> set (players_rec game)"
    and wf: "\<forall>game \<in> set h. nm \<in> set (players_rec game) \<longrightarrow>
        nat (indexOf (players_rec game) nm) < length (scores_rec game)" by simp_all
  define t where "t = length (filter (\<lambda>game. nm \<in> set (players_rec game)) h)"
  define w where "w = length (filter (\<lambda>game. nm \<in> set (players_rec game) \<and>
                                          name (winner_rec game) = Some nm) h)"
  from getPlayerStats_found [OF some wf] obtain st where
    st: "getPlayerStats h nm = Inr (Some st)" "playerName st = nm"
      "totalGames st = int t" "wins st = int w" "losses st = totalGames st - wins st"
      "winRate st = toFixed1 (js_mul (js_div (Fin (of_nat w)) (Fin (of_nat t))) (Fin 100))"
    unfolding t_def w_def by blast
  from some have t0: "0 < t" by (auto simp: t_def filter_empty_conv)
  have "w \<le> length (filter (\<lambda>game. name (winner_rec game) = Some nm)
                (filter (\<lambda>game. nm \<in> set (players_rec game)) h))"
    by (simp add: w_def)
  also have "\<dots> \<le> t" unfolding t_def by (rule length_filter_le)
  finally have wt: "w \<le> t" .
  from percent_near [OF wt t0] obtain p where
    p: "js_mul (js_div (Fin (of_nat w)) (Fin (of_nat t))) (Fin 100) = Fin p"
      "\<bar>p - 100 * of_nat w / of_nat t\<bar> \<le> 2 powi (- 45)" "\<bar>p\<bar> \<le> 101" by blast
  from p(3) have "\<bar>p\<bar> < 10 ^ 21" by simp
  from toFixed1_near [OF this] obtain k :: int where
    kv: "k = (if p < 0 then - \<lfloor>(- p) * 10 + 1 / 2\<rfloor> else \<lfloor>p * 10 + 1 / 2\<rfloor>)" and
    k: "toFixed1 (Fin p) = round_double (of_int k / 10)" "\<bar>of_int k / 10 - p\<bar> \<le> 1 / 20" by blast
  from k(2) p(3) have "\<bar>(of_int k :: rat) / 10\<bar> \<le> 128" by linarith
  then have "\<bar>(of_int k :: rat) / 10\<bar> \<le> 2 powi 7" by simp
  from round_double_near [OF this] obtain r where
    "round_double (of_int k / 10) = Fin r" "\<bar>r - of_int k / 10\<bar> \<le> 2 powi (7 - 53)" by auto
  then have r: "round_double (of_int k / 10) = Fin r" "\<bar>r - of_int k / 10\<bar> \<le> 2 powi (- 46)"
    by simp_all
  from st(6) p(1) k(1) have wr: "winRate st = round_double (of_int k / 10)" by simp
  have rate: "\<exists>p k r. js_mul (js_div (Fin (of_int (wins st))) (Fin (of_int (totalGames st)))) (Fin 100)
                    = Fin p \<and>
                  \<bar>p - 100 * of_int (wins st) / of_int (totalGames st)\<bar> \<le> 2 powi (- 45) \<and>
                  k = (if p < 0 then - \<lfloor>(- p) * 10 + 1 / 2\<rfloor> else \<lfloor>p * 10 + 1 / 2\<rfloor>) \<and>
                  \<bar>of_int k / 10 - p\<bar> \<le> 1 / 20 \<and>
                  winRate st = round_double (of_int k / 10) \<and>
                  winRate st = Fin r \<and> \<bar>r - of_int k / 10\<bar> \<le> 2 powi (- 46)"
    using p(1,2) kv k(2) wr r unfolding st(3,4)
    by (intro exI [of _ p] exI [of _ k] exI [of _ r]) simp
  have half: "totalGames st = 4 \<and> wins st = 2 \<longrightarrow> winRate st = Fin 50"
  proof
    assume "totalGames st = 4 \<and> wins st = 2"
    with st(3,4) have "t = 4" "w = 2" by simp_all
    with st(6) two_of_four show "winRate st = Fin 50" by simp
  qed
  from st(1,2,5) st(3) [unfolded t_def] st(4) [unfolded w_def] rate half
  show "\<exists>st. getPlayerStats h nm = Inr (Some st) \<and> playerName st = nm \<and>
         totalGames st = int (length (filter (\<lambda>game. nm \<in> set (players_rec game)) h)) \<and>
         wins st = int (length (filter (\<lambda>game. nm \<in> set (players_rec game) \<and>
                                          name (winner_rec game) = Some nm) h)) \<and>
         losses st = totalGames st - wins st \<and>
         (\<exists>p k r. js_mul (js_div (Fin (of_int (wins st))) (Fin (of_int (totalGames st)))) (Fin 100)
                    = Fin p \<and>
                  \<bar>p - 100 * of_int (wins st) / of_int (totalGames st)\<bar> \<le> 2 powi (- 45) \<and>
                  k = (if p < 0 then - \<lfloor>(- p) * 10 + 1 / 2\<rfloor> else \<lfloor>p * 10 + 1 / 2\<rfloor>) \<and>
                  \<bar>of_int k / 10 - p\<bar> \<le> 1 / 20 \<and>
                  winRate st = round_double (of_int k / 10) \<and>
                  winRate st = Fin r \<and> \<bar>r - of_int k / 10\<bar> \<le> 2 powi (- 46)) \<and>
         (totalGames st = 4 \<and> wins st = 2 \<longrightarrow> winRate st = Fin 50)"
    by blast
qed

lemma carol_log_record:
  "\<exists>r. carol_log = [r] \<and> players_rec r = [''Alice'', ''Bob'', ''Carol''] \<and>
       length (scores_rec r) = 2"
proof -
  have "scores carol_added \<noteq> []" by (simp add: carol_added_def)
  from saveGame_ok [OF this, of "[]" 1 "''2025-01-01T00:00:00.000Z''" 1]
  obtain r where "saveGame [] carol_added 1 ''2025-01-01T00:00:00.000Z'' 1 =
      (Inr r, take MAX_HISTORY [r])" "players_rec r = players carol_added"
    "scores_rec r = scores carol_added" by blast
  then show ?thesis by (simp add: carol_log_def MAX_HISTORY_def carol_added_def)
qed

lemma carol_has_no_row:
  "\<exists>game \<in> set carol_log. ''Carol'' \<in> set (players_rec game) \<and>
      \<not> nat (indexOf (players_rec game) ''Carol'') < length (scores_rec game)"
proof -
  from carol_log_record obtain r where r: "carol_log = [r]"
    "players_rec r = [''Alice'', ''Bob'', ''Carol'']" "length (scores_rec r) = 2" by blast
  have "indexOf [''Alice'', ''Bob'', ''Carol''] ''Carol'' = 2" by (simp add: indexOf_def)
  with r(2,3) show ?thesis unfolding r(1) by simp
qed

theorem getPlayerStats_spec_witness:
  "getPlayerStats four_games ''Carol'' = Inr None \<and>
   getPlayerStats carol_log ''Carol'' = Inl TypeError \<and>
   (\<exists>st. getPlayerStats four_games ''Alice'' = Inr (Some st) \<and> playerName st = ''Alice'' \<and>
         totalGames st = 4 \<and> wins st = 2 \<and> losses st = 2 \<and> winRate st = Fin 50)"
proof -
  have none: "\<forall>game \<in> set four_games. ''Carol'' \<notin> set (players_rec game)"
    by (simp add: four_games_def sample_record_def)
  with getPlayerStats_spec [of four_games "''Carol''"]
  have a: "getPlayerStats four_games ''Carol'' = Inr None" by blast
  from getPlayerStats_spec [of carol_log "''Carol''"] carol_has_no_row
  have b: "getPlayerStats carol_log ''Carol'' = Inl TypeError" by blast
  have some: "(\<exists>game \<in> set four_games. ''Alice'' \<in> set (players_rec game)) \<and>
    (\<forall>game \<in> set four_games. ''Alice'' \<in> set (players_rec game) \<longrightarrow>
        nat (indexOf (players_rec game) ''Alice'') < length (scores_rec game))"
    by (simp add: four_games_def sample_record_def indexOf_def)
  have n: "int (length (filter (\<lambda>game. ''Alice'' \<in> set (players_rec game)) four_games)) = 4"
    by (simp add: four_games_def sample_record_def)
  have w: "int (length (filter (\<lambda>game. ''Alice'' \<in> set (players_rec game) \<and>
              name (winner_rec game) = Some ''Alice'') four_games)) = 2"
    by (simp add: four_games_def sample_record_def)
  from getPlayerStats_spec [of four_games "''Alice''"] some obtain st where
    st: "getPlayerStats four_games ''Alice'' = Inr (Some st)" "playerName st = ''Alice''"
      "totalGames st = int (length (filter (\<lambda>game. ''Alice'' \<in> set (players_rec game)) four_games))"
      "wins st = int (length (filter (\<lambda>game. ''Alice'' \<in> set (players_rec game) \<and>
              name (winner_rec game) = Some ''Alice'') four_games))"
      "losses st = totalGames st - wins st"
      "totalGames st = 4 \<and> wins st = 2 \<longrightarrow> winRate st = Fin 50" by blast
  from st n w have "playerName st = ''Alice'' \<and> totalGames st = 4 \<and> wins st = 2 \<and>
      losses st = 2 \<and> winRate st = Fin 50" by simp
  with a b st(1) show ?thesis by blast
qed

text \<open>
  C9 as first stated fails for the log that \<open>saveGame\<close> writes for the complete game to which
  Carol was added: the record lists Carol, there is no score row at her position, and
  \<open>getPlayerStats\<close> raises where the claim has it count.
\<close>

theorem getPlayerStats_no_row:
  "reachable carol_added \<and> currentRound carol_added > maxRounds \<and>
   fst (saveGame [] carol_added 1 ''2025-01-01T00:00:00.000Z'' 1) \<noteq> Inl TypeError \<and>
   carol_log = snd (saveGame [] carol_added 1 ''2025-01-01T00:00:00.000Z'' 1) \<and>
   length carol_log = 1 \<and>
   players_rec (hd carol_log) = [''Alice'', ''Bob'', ''Carol''] \<and>
   getPlayerStats carol_log ''Carol'' = Inl TypeError"
proof -
  have "scores carol_added \<noteq> []" by (simp add: carol_added_def)
  from saveGame_ok [OF this, of "[]" 1 "''2025-01-01T00:00:00.000Z''" 1]
  have ok: "fst (saveGame [] carol_added 1 ''2025-01-01T00:00:00.000Z'' 1) \<noteq> Inl TypeError"
    by auto
  have c: "currentRound carol_added > maxRounds" by (simp add: carol_added_def maxRounds_def)
  from carol_log_record obtain r where r: "carol_log = [r]"
    "players_rec r = [''Alice'', ''Bob'', ''Carol'']" by blast
  have l: "length carol_log = 1" "players_rec (hd carol_log) = [''Alice'', ''Bob'', ''Carol'']"
    unfolding r(1) using r(2) by simp_all
  from carol_has_no_row have "getPlayerStats carol_log ''Carol'' = Inl TypeError"
    by (rule getPlayerStats_raises)
  moreover have "carol_log = snd (saveGame [] carol_added 1 ''2025-01-01T00:00:00.000Z'' 1)"
    by (simp only: carol_log_def)
  ultimately show ?thesis using carol_added_reachable ok c l by blast
qed

end
